theory Spec2Isabelle
  imports Complex_Main "HOL-Library.AList"
begin

section \<open>Errors\<close>

text \<open>
  Every \<^verbatim>\<open>throw new Error(msg)\<close> of the source is \<open>Error msg\<close>; a property read on
  \<^verbatim>\<open>undefined\<close> (which the JavaScript runtime reports as a TypeError) is \<open>TypeError\<close>.
  An operation returns \<open>Inl e\<close> when it throws and \<open>Inr\<close> of its effect otherwise.
\<close>

datatype error = Error string | TypeError

section \<open>Spatial.wrap\<close>

text \<open>
  JavaScript numbers are IEEE doubles. The type of the numbers and the four operations
  that \<^verbatim>\<open>Spatial.wrap\<close> applies to them (\<^verbatim>\<open>-\<close>, \<^verbatim>\<open>+\<close>, \<^verbatim>\<open><\<close> and \<^verbatim>\<open>>\<close>) are a parameter, so
  that what is proved of \<open>wrap\<close> for every arithmetic holds of the arithmetic of doubles,
  with its rounding, its infinities and NaN.
\<close>

record 'n arith =
  num_sub :: "'n \<Rightarrow> 'n \<Rightarrow> 'n"
  num_add :: "'n \<Rightarrow> 'n \<Rightarrow> 'n"
  num_lt :: "'n \<Rightarrow> 'n \<Rightarrow> bool"
  num_gt :: "'n \<Rightarrow> 'n \<Rightarrow> bool"

text \<open>
  The \<^verbatim>\<open>while\<close> loop of \<^verbatim>\<open>Spatial.wrap\<close>. The loop may run forever, so it is a partial
  function: \<open>None\<close> means that the loop does not return. The parameters \<^verbatim>\<open>value\<close>,
  \<^verbatim>\<open>min\<close>, \<^verbatim>\<open>max\<close> are \<open>v\<close>, \<open>mn\<close>, \<open>mx\<close>.
\<close>

partial_function (option) wrap_loop :: "'n arith \<Rightarrow> 'n \<Rightarrow> 'n \<Rightarrow> 'n \<Rightarrow> 'n \<Rightarrow> 'n option" where
  "wrap_loop ar v mn mx interval =
     (if num_gt ar v mx \<or> num_lt ar v mn then
        (if num_gt ar v mx then wrap_loop ar (num_sub ar v interval) mn mx interval
         else if num_lt ar v mn then wrap_loop ar (num_add ar v interval) mn mx interval
         else wrap_loop ar v mn mx interval)
      else Some v)"

definition wrap :: "'n arith \<Rightarrow> 'n \<Rightarrow> 'n \<Rightarrow> 'n \<Rightarrow> (error + 'n) option" where
  "wrap ar v mn mx =
     (if num_lt ar mx mn then Some (Inl (Error ''Invalid arguments: max must be larger than min.''))
      else map_option Inr (wrap_loop ar v mn mx (num_sub ar mx mn)))"

text \<open>
  The arithmetic without rounding, on the reals. The arithmetic of doubles agrees with
  it where the operands and the exact result are doubles; it is used below at the
  numbers 0, 1/2 and 1 only.
\<close>

definition exact :: "real arith" where
  "exact = \<lparr>num_sub = (\<lambda>a b. a - b), num_add = (\<lambda>a b. a + b), num_lt = (\<lambda>a b. a < b),
            num_gt = (\<lambda>a b. a > b)\<rparr>"

section \<open>NewGraph\<close>

text \<open>
  Modelled from the spec: the classes \<^verbatim>\<open>NewNode\<close> and \<^verbatim>\<open>IFullNode\<close> are imported by the
  source but not part of it. A full node carries its key; a \<^verbatim>\<open>NewNode\<close> has a key and
  the fill data that \<^verbatim>\<open>makeFull\<close> stores (null until then).
\<close>

record IFullNode =
  fn_key :: string

record NewNode =
  nn_key :: string
  nn_fill :: "IFullNode option"

definition NewNode_new :: "IFullNode \<Rightarrow> string \<Rightarrow> NewNode" where
  "NewNode_new fn skey = \<lparr>nn_key = fn_key fn, nn_fill = None\<rparr>"

definition makeFull :: "IFullNode \<Rightarrow> NewNode \<Rightarrow> NewNode" where
  "makeFull fn node = node\<lparr>nn_fill := Some fn\<rparr>"

text \<open>
  The fields of class \<^verbatim>\<open>NewGraph\<close> that its methods read or write: the node labels of
  \<^verbatim>\<open>_graph\<close> and the dictionaries \<^verbatim>\<open>_fetching\<close> and \<^verbatim>\<open>_filling\<close>.
\<close>

record NewGraph =
  new_graph :: "string \<rightharpoonup> NewNode"
  new_fetching :: "string \<rightharpoonup> bool"
  new_filling :: "string \<rightharpoonup> bool"

definition NewGraph_new :: NewGraph where
  "NewGraph_new = \<lparr>new_graph = Map.empty, new_fetching = Map.empty, new_filling = Map.empty\<rparr>"

definition hasNode :: "NewGraph \<Rightarrow> string \<Rightarrow> bool" where
  "hasNode g key = (new_graph g key \<noteq> None)"

definition fetching :: "NewGraph \<Rightarrow> string \<Rightarrow> bool" where
  "fetching g key = (new_fetching g key \<noteq> None)"

definition filling :: "NewGraph \<Rightarrow> string \<Rightarrow> bool" where
  "filling g key = (new_filling g key \<noteq> None)"

text \<open>
  An operation returns the new state together with the list of values it pushes on the
  subject \<^verbatim>\<open>_changed$\<close> (each \<^verbatim>\<open>this._changed$.next(this)\<close> appends the graph).

  \<open>fetch\<close> is the synchronous part of \<^verbatim>\<open>NewGraph.fetch\<close>: the two checks, the mark, and
  the request, whose promise settles later.
\<close>

definition fetch :: "string \<Rightarrow> NewGraph \<Rightarrow> error + NewGraph \<times> NewGraph list" where
  "fetch key g =
     (if new_fetching g key \<noteq> None then
        Inl (Error (''Already fetching ('' @ key @ '').''))
      else if new_graph g key \<noteq> None then
        Inl (Error (''Cannot fetch node that already exist in graph ('' @ key @ '').''))
      else Inr (g\<lparr>new_fetching := (new_fetching g)(key \<mapsto> True)\<rparr>, []))"

text \<open>
  The callback given to \<^verbatim>\<open>then\<close>; \<open>fn\<close> is \<^verbatim>\<open>res.json.imageByKey[key]\<close>.
\<close>

definition fetch_then :: "string \<Rightarrow> IFullNode \<Rightarrow> NewGraph \<Rightarrow> NewGraph \<times> NewGraph list" where
  "fetch_then key fn g =
     (let node = makeFull fn (NewNode_new fn '''');
          g1 = g\<lparr>new_graph := (new_graph g)(nn_key node \<mapsto> node)\<rparr>;
          g2 = g1\<lparr>new_fetching := (new_fetching g1)(key := None)\<rparr>
      in (g2, [g2]))"

text \<open>
  How the promise of \<^verbatim>\<open>imageByKeyFull\<close> settles. \<^verbatim>\<open>then\<close> is called with one argument,
  the fulfilment callback: on rejection no code of \<^verbatim>\<open>NewGraph\<close> runs.
\<close>

datatype 'a settled = Fulfilled 'a | Rejected

definition fetch_settled ::
  "string \<Rightarrow> IFullNode settled \<Rightarrow> NewGraph \<Rightarrow> NewGraph \<times> NewGraph list" where
  "fetch_settled key s g = (case s of Fulfilled fn \<Rightarrow> fetch_then key fn g | Rejected \<Rightarrow> (g, []))"

section \<open>Graph: data\<close>

record ILatLon =
  lat :: real
  lon :: real

text \<open>The result of \<^verbatim>\<open>geohash.bounds\<close>.\<close>

record IBounds =
  b_sw :: ILatLon
  b_ne :: ILatLon

text \<open>
  The keys of the dictionary that \<^verbatim>\<open>geohash.neighbours\<close> returns, as class
  \<^verbatim>\<open>GeoHashDirections\<close> names them.
\<close>

datatype GeoHashDirections =
  Dir_n | Dir_nw | Dir_w | Dir_sw | Dir_s | Dir_se | Dir_e | Dir_ne

text \<open>
  The payload of a tile (\<^verbatim>\<open>IAPINavIm\<close>): its geohashes, its sequences and its images.
  An optional field is an \<open>option\<close>.
\<close>

record IAPINavImS =
  s_key :: string
  s_keys :: "string list"

record IAPINavImIm =
  im_key :: string
  im_lat :: real
  im_lon :: real
  im_clat :: "real option"
  im_clon :: "real option"
  im_ca :: real
  im_cca :: "real option"
  im_calt :: "real option"
  im_rotation :: "real list option"
  im_orientation :: real

record IAPINavIm =
  data_hs :: "string list"
  data_ss :: "IAPINavImS list"
  data_ims :: "IAPINavImIm list"

text \<open>
  Modelled from the spec: the classes \<^verbatim>\<open>Sequence\<close> and \<^verbatim>\<open>Node\<close> and the interfaces
  \<^verbatim>\<open>IEdge\<close> and \<^verbatim>\<open>IEdgeData\<close> are imported by the source but not part of it. A sequence
  has a key and the ordered keys of its nodes. A node has the arguments of its
  constructor (compass angle, position, worthy flag, sequence, image, coverage set) and
  its cached outgoing edges, null until computed; its key is the key of its image.
  \<^verbatim>\<open>makeWorthy\<close> sets the worthy flag and \<^verbatim>\<open>cacheEdges\<close> stores the edges. An edge has
  its source, its destination and data with a direction tag (a numeric enum).
\<close>

record Sequence =
  seq_key :: string
  seq_keys :: "string list"

definition Sequence_new :: "IAPINavImS \<Rightarrow> Sequence" where
  "Sequence_new s = \<lparr>seq_key = s_key s, seq_keys = s_keys s\<rparr>"

record IEdgeData =
  direction :: nat
  worldMotionAzimuth :: real

record IEdge =
  edge_data :: IEdgeData
  edge_from :: string
  edge_to :: string

record Node =
  node_ca :: real
  node_latLon :: ILatLon
  worthy :: bool
  node_sequence :: "Sequence option"
  apiNavImIm :: IAPINavImIm
  hs :: "string list"
  edges :: "IEdge list option"

definition Node_new ::
  "real \<Rightarrow> ILatLon \<Rightarrow> bool \<Rightarrow> Sequence option \<Rightarrow> IAPINavImIm \<Rightarrow> string list \<Rightarrow> Node" where
  "Node_new ca latLon wo sq im hs0 =
     \<lparr>node_ca = ca, node_latLon = latLon, worthy = wo, node_sequence = sq,
      apiNavImIm = im, hs = hs0, edges = None\<rparr>"

definition node_key :: "Node \<Rightarrow> string" where
  "node_key node = im_key (apiNavImIm node)"

definition makeWorthy :: "Node \<Rightarrow> Node" where
  "makeWorthy node = node\<lparr>worthy := True\<rparr>"

definition cacheEdges :: "IEdge list \<Rightarrow> Node \<Rightarrow> Node" where
  "cacheEdges es node = node\<lparr>edges := Some es\<rparr>"

text \<open>The fields of a potential edge, as the test helper of the repository builds one.\<close>

record IPotentialEdge =
  pe_distance :: real
  pe_motionChange :: real
  pe_verticalMotion :: real
  pe_directionChange :: real
  pe_verticalDirectionChange :: real
  pe_rotation :: real
  pe_worldMotionAzimuth :: real
  pe_sameSequence :: bool
  pe_sameMergeCc :: bool
  pe_fullPano :: bool
  pe_key :: string

text \<open>
  What \<^verbatim>\<open>Graph\<close> calls and the source does not hold is a parameter: the geohash library
  (\<open>None\<close> when it throws on a malformed geohash), \<^verbatim>\<open>GeoCoords.geodeticToEnu\<close>, the
  matrix arithmetic of \<^verbatim>\<open>_computeRotation\<close>, the methods of \<^verbatim>\<open>EdgeCalculator\<close> and the
  two sequence lookups of \<^verbatim>\<open>Node\<close>. A vector of three numbers is a triple.
\<close>

record env =
  geohash_bounds :: "string \<Rightarrow> IBounds option"
  geohash_neighbours :: "string \<Rightarrow> (GeoHashDirections \<Rightarrow> string) option"
  geodeticToEnu :: "real \<Rightarrow> real \<Rightarrow> real \<Rightarrow> real \<Rightarrow> real \<Rightarrow> real \<Rightarrow> real \<times> real \<times> real"
  computeRotation :: "real \<Rightarrow> real \<Rightarrow> real list"
  computeSequenceEdges :: "Node \<Rightarrow> IEdge list"
  getPotentialEdges :: "Node \<Rightarrow> Node list \<Rightarrow> string list \<Rightarrow> IPotentialEdge list"
  computeStepEdges ::
    "Node \<Rightarrow> IPotentialEdge list \<Rightarrow> string option \<Rightarrow> string option \<Rightarrow> IEdge list"
  computeTurnEdges :: "Node \<Rightarrow> IPotentialEdge list \<Rightarrow> IEdge list"
  computePanoEdges :: "Node \<Rightarrow> IPotentialEdge list \<Rightarrow> IEdge list"
  computePerspectiveToPanoEdges :: "Node \<Rightarrow> IPotentialEdge list \<Rightarrow> IEdge list"
  computeSimilarEdges :: "Node \<Rightarrow> IPotentialEdge list \<Rightarrow> IEdge list"
  findPrevKeyInSequence :: "Node \<Rightarrow> string option"
  findNextKeyInSequence :: "Node \<Rightarrow> string option"

text \<open>
  An item of the spatial index holds a reference to a node object, and so does a node
  label of the graph. Node objects live in a store, \<open>heap\<close>, from references (natural
  numbers) to their current fields; \<open>next_ref\<close> is the next reference \<^verbatim>\<open>new Node\<close> takes.
\<close>

record ISpatialItem =
  item_lat :: real
  item_lon :: real
  item_node :: nat

text \<open>
  The fields of class \<^verbatim>\<open>Graph\<close>. Of the graphlib multigraph, \<open>graph_nodes\<close> maps a node
  of the graph to its label (\<open>Some None\<close> is a node without a label, as \<^verbatim>\<open>setEdge\<close>
  creates for an unknown end point) and \<open>graph_edges\<close> lists the edges in insertion
  order, each with its source, destination and name, and its label. The spatial index
  lists its items in insertion order. \<open>unWorthyNodes\<close> is a dictionary that the source
  enumerates, hence an association list in insertion order.
\<close>

record Graph =
  sequences :: "string \<rightharpoonup> Sequence"
  sequenceHashes :: "string \<rightharpoonup> (string \<rightharpoonup> Sequence)"
  graph_nodes :: "string \<rightharpoonup> nat option"
  graph_edges :: "((string \<times> string \<times> string) \<times> IEdgeData) list"
  nodeIndex :: "ISpatialItem list"
  unWorthyNodes :: "(string \<times> bool) list"
  heap :: "nat \<Rightarrow> Node"
  next_ref :: nat

definition null_Node :: Node where
  "null_Node =
     Node_new 0 \<lparr>lat = 0, lon = 0\<rparr> False None
       \<lparr>im_key = [], im_lat = 0, im_lon = 0, im_clat = None, im_clon = None, im_ca = 0,
        im_cca = None, im_calt = None, im_rotation = None, im_orientation = 0\<rparr> []"

definition Graph_new :: Graph where
  "Graph_new =
     \<lparr>sequences = Map.empty, sequenceHashes = Map.empty, graph_nodes = Map.empty,
      graph_edges = [], nodeIndex = [], unWorthyNodes = [], heap = (\<lambda>r. null_Node),
      next_ref = 0\<rparr>"

definition boxWidth :: real where
  "boxWidth = 0.001"

definition defaultAlt :: real where
  "defaultAlt = 2"

section \<open>Graph: ingestion of a tile\<close>

text \<open>\<^verbatim>\<open>Graph.getNode\<close>: the label of the node, undefined (\<open>None\<close>) when there is none.\<close>

definition getNode :: "Graph \<Rightarrow> string \<Rightarrow> nat option" where
  "getNode g key = (case graph_nodes g key of Some (Some r) \<Rightarrow> Some r | _ \<Rightarrow> None)"

definition computeHs ::
  "env \<Rightarrow> ILatLon \<Rightarrow> ILatLon \<Rightarrow> ILatLon \<Rightarrow> string \<Rightarrow> (GeoHashDirections \<Rightarrow> string) \<Rightarrow> string list"
  where
  "computeHs env latLon sw ne h neighbours =
     (let hs0 = [h];
          bl = (0::real, 0::real, 0::real);
          tr = geodeticToEnu env (lat ne) (lon ne) 0 (lat sw) (lon sw) 0;
          position = geodeticToEnu env (lat latLon) (lon latLon) 0 (lat sw) (lon sw) 0;
          left = fst position - fst bl;
          right = fst tr - fst position;
          bottom = fst (snd position) - fst (snd bl);
          top = fst (snd tr) - fst (snd position);
          l = (left < 20);
          r = (right < 20);
          b = (bottom < 20);
          t = (top < 20);
          hs1 = (if t then hs0 @ [neighbours Dir_n] else hs0);
          hs2 = (if t \<and> l then hs1 @ [neighbours Dir_nw] else hs1);
          hs3 = (if l then hs2 @ [neighbours Dir_w] else hs2);
          hs4 = (if l \<and> b then hs3 @ [neighbours Dir_sw] else hs3);
          hs5 = (if b then hs4 @ [neighbours Dir_s] else hs4);
          hs6 = (if b \<and> r then hs5 @ [neighbours Dir_se] else hs5);
          hs7 = (if r then hs6 @ [neighbours Dir_e] else hs6);
          hs8 = (if r \<and> t then hs7 @ [neighbours Dir_ne] else hs7)
      in hs8)"

text \<open>
  The loop over \<^verbatim>\<open>data.ss\<close>; \<open>acc\<close> is \<^verbatim>\<open>hSequenceHashes\<close>. An entry is \<open>None\<close> when
  \<^verbatim>\<open>_sequenceHashes\<close> has nothing for a key that \<^verbatim>\<open>_sequences\<close> has.
\<close>

fun addSequences ::
  "IAPINavImS list \<Rightarrow> Graph \<Rightarrow> (string \<rightharpoonup> Sequence) option list \<Rightarrow>
   Graph \<times> (string \<rightharpoonup> Sequence) option list" where
  "addSequences [] g acc = (g, acc)"
| "addSequences (s # ss) g acc =
     (let skey = s_key s in
      if sequences g skey \<noteq> None then addSequences ss g (acc @ [sequenceHashes g skey])
      else
        (let sq = Sequence_new s;
             sequenceHash = fold (\<lambda>key m. m(key \<mapsto> sq)) (s_keys s) Map.empty
         in addSequences ss
              (g\<lparr>sequences := (sequences g)(skey \<mapsto> sq),
                 sequenceHashes := (sequenceHashes g)(skey \<mapsto> sequenceHash)\<rparr>)
              (acc @ [Some sequenceHash])))"

text \<open>
  The search of the sequence of an image; \<^verbatim>\<open>im.key in ts\<close> throws on an undefined
  \<^verbatim>\<open>ts\<close>.
\<close>

fun findSequence ::
  "string \<Rightarrow> (string \<rightharpoonup> Sequence) option list \<Rightarrow> error + Sequence option" where
  "findSequence key [] = Inr None"
| "findSequence key (None # tss) = Inl TypeError"
| "findSequence key (Some ts # tss) =
     (case ts key of Some sq \<Rightarrow> Inr (Some sq) | None \<Rightarrow> findSequence key tss)"

text \<open>The body of the function mapped over \<^verbatim>\<open>data.ims\<close>, up to \<^verbatim>\<open>new Node\<close>.\<close>

definition makeNode ::
  "env \<Rightarrow> IBounds \<Rightarrow> string \<Rightarrow> (GeoHashDirections \<Rightarrow> string) \<Rightarrow>
   (string \<rightharpoonup> Sequence) option list \<Rightarrow> IAPINavImIm \<Rightarrow> error + Node" where
  "makeNode env bounds h neighbours hSequenceHashes im =
     (let la = (case im_clat im of Some c \<Rightarrow> c | None \<Rightarrow> im_lat im);
          lo = (case im_clon im of Some c \<Rightarrow> c | None \<Rightarrow> im_lon im);
          ca = (case im_cca im of Some c \<Rightarrow> c | None \<Rightarrow> im_ca im);
          im1 = (if im_calt im = None then im\<lparr>im_calt := Some defaultAlt\<rparr> else im);
          latLon = \<lparr>lat = la, lon = lo\<rparr>;
          im2 = (if im_rotation im1 = None
                 then im1\<lparr>im_rotation := Some (computeRotation env (im_ca im1) (im_orientation im1))\<rparr>
                 else im1);
          hs0 = computeHs env latLon (b_sw bounds) (b_ne bounds) h neighbours
      in case findSequence (im_key im2) hSequenceHashes of
           Inl e \<Rightarrow> Inl e
         | Inr sq \<Rightarrow> Inr (Node_new ca latLon False sq im2 hs0))"

text \<open>
  The map over \<^verbatim>\<open>data.ims\<close>: each image gives a new node object, and its key is marked in
  \<^verbatim>\<open>_unWorthyNodes\<close>. The result lists the references of the new objects.
\<close>

fun makeNodes ::
  "env \<Rightarrow> IBounds \<Rightarrow> string \<Rightarrow> (GeoHashDirections \<Rightarrow> string) \<Rightarrow>
   (string \<rightharpoonup> Sequence) option list \<Rightarrow> IAPINavImIm list \<Rightarrow> Graph \<Rightarrow> error + Graph \<times> nat list"
  where
  "makeNodes env bounds h neighbours hsh [] g = Inr (g, [])"
| "makeNodes env bounds h neighbours hsh (im # ims) g =
     (case makeNode env bounds h neighbours hsh im of
        Inl e \<Rightarrow> Inl e
      | Inr node \<Rightarrow>
          (let r = next_ref g;
               g1 = g\<lparr>heap := (heap g)(r := node), next_ref := Suc r,
                      unWorthyNodes := AList.update (im_key im) True (unWorthyNodes g)\<rparr>
           in case makeNodes env bounds h neighbours hsh ims g1 of
                Inl e \<Rightarrow> Inl e
              | Inr (g2, rs) \<Rightarrow> Inr (g2, r # rs)))"

definition insertNode :: "nat \<Rightarrow> Graph \<Rightarrow> Graph" where
  "insertNode r g =
     (let node = heap g r in
      if getNode g (node_key node) \<noteq> None then g
      else g\<lparr>nodeIndex := nodeIndex g @
                [\<lparr>item_lat = lat (node_latLon node), item_lon = lon (node_latLon node),
                  item_node = r\<rparr>],
             graph_nodes := (graph_nodes g)(node_key node \<mapsto> Some r)\<rparr>)"

definition insertNodes :: "nat list \<Rightarrow> Graph \<Rightarrow> Graph" where
  "insertNodes nodes g = fold insertNode nodes g"

text \<open>\<^verbatim>\<open>!!tiles[h]\<close>.\<close>

definition loaded :: "(string \<rightharpoonup> bool) \<Rightarrow> string \<Rightarrow> bool" where
  "loaded tiles h = (tiles h = Some True)"

text \<open>
  The first loop of \<^verbatim>\<open>_makeNodesWorthy\<close>, over the keys of \<^verbatim>\<open>_unWorthyNodes\<close>; \<open>wk\<close> is
  \<^verbatim>\<open>worthyKeys\<close>. \<^verbatim>\<open>node.hs\<close> throws when the graph has no label for the key.
\<close>

fun worthyLoop ::
  "(string \<rightharpoonup> bool) \<Rightarrow> string list \<Rightarrow> Graph \<Rightarrow> string list \<Rightarrow> error + Graph \<times> string list"
  where
  "worthyLoop tiles [] g wk = Inr (g, wk)"
| "worthyLoop tiles (key # keys) g wk =
     (if map_of (unWorthyNodes g) key \<noteq> Some True then worthyLoop tiles keys g (wk @ [key])
      else
        (case getNode g key of
           None \<Rightarrow> Inl TypeError
         | Some r \<Rightarrow>
             (let wo = fold (\<lambda>h wo. wo \<and> loaded tiles h) (hs (heap g r)) True in
              if wo then
                worthyLoop tiles keys
                  (g\<lparr>heap := (heap g)(r := makeWorthy (heap g r)),
                     unWorthyNodes := AList.update key False (unWorthyNodes g)\<rparr>)
                  (wk @ [key])
              else worthyLoop tiles keys g wk)))"

definition makeNodesWorthy :: "(string \<rightharpoonup> bool) \<Rightarrow> Graph \<Rightarrow> error + Graph" where
  "makeNodesWorthy tiles g =
     (case worthyLoop tiles (map fst (unWorthyNodes g)) g [] of
        Inl e \<Rightarrow> Inl e
      | Inr (g1, wk) \<Rightarrow> Inr (g1\<lparr>unWorthyNodes := fold AList.delete wk (unWorthyNodes g1)\<rparr>))"

text \<open>
  \<^verbatim>\<open>Graph.addNodesFromAPI\<close>; \<open>None\<close> is an undefined payload. Class \<^verbatim>\<open>Graph\<close> has no
  change subject, and the list of pushed values is empty on every path.
\<close>

definition addNodesFromAPI ::
  "env \<Rightarrow> IAPINavIm option \<Rightarrow> (string \<rightharpoonup> bool) \<Rightarrow> Graph \<Rightarrow> error + Graph \<times> Graph list" where
  "addNodesFromAPI env data tiles g =
     (case data of
        None \<Rightarrow> Inr (g, [])
      | Some d \<Rightarrow>
          (case data_hs d of
             [] \<Rightarrow> Inl TypeError
           | h # _ \<Rightarrow>
               (case geohash_bounds env h of
                  None \<Rightarrow> Inl (Error ''Invalid geohash'')
                | Some bounds \<Rightarrow>
                    (case geohash_neighbours env h of
                       None \<Rightarrow> Inl (Error ''Invalid geohash'')
                     | Some neighbours \<Rightarrow>
                         (case addSequences (data_ss d) g [] of
                            (g1, hSequenceHashes) \<Rightarrow>
                              (case makeNodes env bounds h neighbours hSequenceHashes
                                      (data_ims d) g1 of
                                 Inl e \<Rightarrow> Inl e
                               | Inr (g2, nodes) \<Rightarrow>
                                   (case makeNodesWorthy tiles (insertNodes nodes g2) of
                                      Inl e \<Rightarrow> Inl e
                                    | Inr g3 \<Rightarrow> Inr (g3, []))))))))"

section \<open>Graph: edges of a node\<close>

text \<open>
  The operations of the graphlib multigraph that \<^verbatim>\<open>Graph\<close> uses. \<^verbatim>\<open>outEdges\<close> is
  undefined for a node the graph does not have; an edge is listed with the label that
  \<^verbatim>\<open>edge\<close> returns for it. \<^verbatim>\<open>setEdge\<close> creates the end points it does not find, without
  a label, and overwrites the label of an edge that exists.
\<close>

definition outEdges :: "Graph \<Rightarrow> string \<Rightarrow> ((string \<times> string \<times> string) \<times> IEdgeData) list option"
  where
  "outEdges g v =
     (if graph_nodes g v = None then None
      else Some (filter (\<lambda>ed. fst (fst ed) = v) (graph_edges g)))"

definition removeEdge :: "string \<times> string \<times> string \<Rightarrow> Graph \<Rightarrow> Graph" where
  "removeEdge e g = g\<lparr>graph_edges := AList.delete e (graph_edges g)\<rparr>"

definition ensureNode :: "string \<Rightarrow> (string \<rightharpoonup> nat option) \<Rightarrow> (string \<rightharpoonup> nat option)" where
  "ensureNode v m = (if m v = None then m(v \<mapsto> None) else m)"

definition setEdge :: "string \<Rightarrow> string \<Rightarrow> IEdgeData \<Rightarrow> string \<Rightarrow> Graph \<Rightarrow> Graph" where
  "setEdge v w label name g =
     g\<lparr>graph_nodes := ensureNode w (ensureNode v (graph_nodes g)),
       graph_edges := AList.update (v, w, name) label (graph_edges g)\<rparr>"

text \<open>The decimal digits of a number, as string concatenation writes an enum value.\<close>

fun string_of_nat :: "nat \<Rightarrow> string" where
  "string_of_nat k =
     (if k < 10 then [''0123456789'' ! k]
      else string_of_nat (k div 10) @ [''0123456789'' ! (k mod 10)])"

definition edgeName :: "Node \<Rightarrow> IEdge \<Rightarrow> string" where
  "edgeName node edge =
     node_key node @ edge_to edge @ string_of_nat (direction (edge_data edge))"

text \<open>\<^verbatim>\<open>Graph.getEdges\<close>; the underscore map of an undefined list is empty.\<close>

definition getEdges :: "Graph \<Rightarrow> Node \<Rightarrow> IEdge list" where
  "getEdges g node =
     (case outEdges g (node_key node) of
        None \<Rightarrow> []
      | Some oes \<Rightarrow>
          map (\<lambda>ed. \<lparr>edge_data = snd ed, edge_from = fst (fst ed), edge_to = fst (snd (fst ed))\<rparr>)
            oes)"

text \<open>
  \<^verbatim>\<open>Graph._addEdgesToNode\<close>, on the node object at reference \<open>r\<close>; the loop over an
  undefined \<^verbatim>\<open>outEdges\<close> throws.
\<close>

definition addEdgesToNode :: "nat \<Rightarrow> IEdge list \<Rightarrow> Graph \<Rightarrow> error + Graph" where
  "addEdgesToNode r es g =
     (let node = heap g r in
      case outEdges g (node_key node) of
        None \<Rightarrow> Inl TypeError
      | Some oes \<Rightarrow>
          (let g1 = fold (\<lambda>ed. removeEdge (fst ed)) oes g
           in Inr (fold (\<lambda>edge. setEdge (node_key node) (edge_to edge) (edge_data edge)
                                  (edgeName node edge)) es g1)))"

text \<open>
  The search of the spatial index: the items whose point lies in the box, bounds
  included. The order of the result stands for the order in which rbush returns them.
\<close>

definition search :: "ISpatialItem list \<Rightarrow> real \<Rightarrow> real \<Rightarrow> real \<Rightarrow> real \<Rightarrow> ISpatialItem list" where
  "search idx maxX maxY minX minY =
     filter (\<lambda>item. minX \<le> item_lon item \<and> item_lon item \<le> maxX \<and>
                     minY \<le> item_lat item \<and> item_lat item \<le> maxY) idx"

text \<open>
  \<^verbatim>\<open>Graph._computeEdges\<close>, on the node object at reference \<open>r\<close>, in three parts: the
  nodes that the search of the box around the node returns, the edges that the
  calculator gives for the node and these candidates, concatenated in the order of the
  source, and the method itself.
\<close>

definition candidates :: "Graph \<Rightarrow> Node \<Rightarrow> Node list" where
  "candidates g node =
     (let minLon = lon (node_latLon node) - boxWidth / 2;
          minLat = lat (node_latLon node) - boxWidth / 2;
          maxLon = lon (node_latLon node) + boxWidth / 2;
          maxLat = lat (node_latLon node) + boxWidth / 2
      in map (\<lambda>item. heap g (item_node item))
           (search (nodeIndex g) maxLon maxLat minLon minLat))"

definition collectEdges :: "env \<Rightarrow> Node \<Rightarrow> Node list \<Rightarrow> IEdge list" where
  "collectEdges env node nodes =
     (let edges0 = computeSequenceEdges env node;
          fallbackKeys = map edge_to edges0;
          potentialEdges = getPotentialEdges env node nodes fallbackKeys;
          edges1 = edges0 @ computeStepEdges env node potentialEdges
                              (findPrevKeyInSequence env node) (findNextKeyInSequence env node);
          edges2 = edges1 @ computeTurnEdges env node potentialEdges;
          edges3 = edges2 @ computePanoEdges env node potentialEdges;
          edges4 = edges3 @ computePerspectiveToPanoEdges env node potentialEdges;
          edges5 = edges4 @ computeSimilarEdges env node potentialEdges
      in edges5)"

definition computeEdges :: "env \<Rightarrow> nat \<Rightarrow> Graph \<Rightarrow> error + bool \<times> Graph" where
  "computeEdges env r g =
     (let node = heap g r in
      if \<not> worthy node then Inr (False, g)
      else
        (case addEdgesToNode r (collectEdges env node (candidates g node)) g of
           Inl e \<Rightarrow> Inl e
         | Inr g1 \<Rightarrow> Inr (True, g1)))"

text \<open>\<^verbatim>\<open>Graph.cacheNode\<close>, on the node object at reference \<open>r\<close>; it pushes no value.\<close>

definition cacheNode :: "env \<Rightarrow> nat \<Rightarrow> Graph \<Rightarrow> error + Graph \<times> Graph list" where
  "cacheNode env r g =
     (case computeEdges env r g of
        Inl e \<Rightarrow> Inl e
      | Inr (True, g1) \<Rightarrow>
          Inr (g1\<lparr>heap := (heap g1)(r := cacheEdges (getEdges g1 (heap g1 r)) (heap g1 r))\<rparr>, [])
      | Inr (False, g1) \<Rightarrow> Inr (g1, []))"

section \<open>Notions used by the properties\<close>

text \<open>
  A node without its cached edges. The methods of \<^verbatim>\<open>EdgeCalculator\<close> and the sequence
  lookups are parameters; \<open>ignores_cached_edges\<close> says that their results do not depend
  on the edges cached on the nodes they are given.
\<close>

definition strip :: "Node \<Rightarrow> Node" where
  "strip node = node\<lparr>edges := None\<rparr>"

definition ignores_cached_edges :: "env \<Rightarrow> bool" where
  "ignores_cached_edges env =
     (\<forall>node nodes keys pes p q.
        computeSequenceEdges env node = computeSequenceEdges env (strip node) \<and>
        getPotentialEdges env node nodes keys =
          getPotentialEdges env (strip node) (map strip nodes) keys \<and>
        computeStepEdges env node pes p q = computeStepEdges env (strip node) pes p q \<and>
        computeTurnEdges env node pes = computeTurnEdges env (strip node) pes \<and>
        computePanoEdges env node pes = computePanoEdges env (strip node) pes \<and>
        computePerspectiveToPanoEdges env node pes =
          computePerspectiveToPanoEdges env (strip node) pes \<and>
        computeSimilarEdges env node pes = computeSimilarEdges env (strip node) pes \<and>
        findPrevKeyInSequence env node = findPrevKeyInSequence env (strip node) \<and>
        findNextKeyInSequence env node = findNextKeyInSequence env (strip node))"

text \<open>
  What the second loop of \<^verbatim>\<open>_addEdgesToNode\<close> does to the nodes and to the edges of the
  graph: \<^verbatim>\<open>setEdge\<close> for each computed edge, from the node \<open>v\<close>.
\<close>

definition ensureNodes :: "string \<Rightarrow> IEdge list \<Rightarrow> (string \<rightharpoonup> nat option) \<Rightarrow> (string \<rightharpoonup> nat option)"
  where
  "ensureNodes v es m = fold (\<lambda>edge m. ensureNode (edge_to edge) (ensureNode v m)) es m"

definition updateEdges ::
  "Node \<Rightarrow> IEdge list \<Rightarrow> ((string \<times> string \<times> string) \<times> IEdgeData) list \<Rightarrow>
   ((string \<times> string \<times> string) \<times> IEdgeData) list" where
  "updateEdges node es al =
     fold (\<lambda>edge. AList.update (node_key node, edge_to edge, edgeName node edge) (edge_data edge))
       es al"

text \<open>The coverage set of a node is loaded: every tile of it is marked in \<open>tiles\<close>.\<close>

definition covered :: "(string \<rightharpoonup> bool) \<Rightarrow> Node \<Rightarrow> bool" where
  "covered tiles node = list_all (loaded tiles) (hs node)"

text \<open>
  A key that \<^verbatim>\<open>_makeNodesWorthy\<close> promotes: it is tracked as unworthy and the coverage
  set of its node is loaded.
\<close>

definition promoted :: "(string \<rightharpoonup> bool) \<Rightarrow> Graph \<Rightarrow> string \<Rightarrow> bool" where
  "promoted tiles g key =
     (map_of (unWorthyNodes g) key = Some True \<and>
      (case getNode g key of None \<Rightarrow> False | Some r \<Rightarrow> covered tiles (heap g r)))"

section \<open>A small tile\<close>

text \<open>
  A geohash library and a projection for a tile \<open>t\<close> of 1000 by 1000 units whose south
  west corner is the origin, an edge calculator that links a node to \<open>b\<close>, and a tile
  with a sequence of two images: \<open>a\<close> in the middle of the tile and \<open>b\<close> five units from
  its south boundary.
\<close>

definition ex_neighbours :: "string \<Rightarrow> GeoHashDirections \<Rightarrow> string" where
  "ex_neighbours h d =
     h @ (case d of Dir_n \<Rightarrow> ''n'' | Dir_nw \<Rightarrow> ''nw'' | Dir_w \<Rightarrow> ''w'' | Dir_sw \<Rightarrow> ''sw''
          | Dir_s \<Rightarrow> ''s'' | Dir_se \<Rightarrow> ''se'' | Dir_e \<Rightarrow> ''e'' | Dir_ne \<Rightarrow> ''ne'')"

definition ex_env :: env where
  "ex_env =
     \<lparr>geohash_bounds = (\<lambda>h. Some \<lparr>b_sw = \<lparr>lat = 0, lon = 0\<rparr>, b_ne = \<lparr>lat = 1000, lon = 1000\<rparr>\<rparr>),
      geohash_neighbours = (\<lambda>h. Some (ex_neighbours h)),
      geodeticToEnu = (\<lambda>la lo al rla rlo ral. (lo - rlo, la - rla, al - ral)),
      computeRotation = (\<lambda>ca orientation. [0, 0, 0]),
      computeSequenceEdges =
        (\<lambda>node. [\<lparr>edge_data = \<lparr>direction = 0, worldMotionAzimuth = 0\<rparr>,
                   edge_from = node_key node, edge_to = ''b''\<rparr>]),
      getPotentialEdges = (\<lambda>node nodes keys. []),
      computeStepEdges = (\<lambda>node pes p q. []),
      computeTurnEdges = (\<lambda>node pes. []),
      computePanoEdges = (\<lambda>node pes. []),
      computePerspectiveToPanoEdges = (\<lambda>node pes. []),
      computeSimilarEdges = (\<lambda>node pes. []),
      findPrevKeyInSequence = (\<lambda>node. None),
      findNextKeyInSequence = (\<lambda>node. None)\<rparr>"

definition ex_im :: "string \<Rightarrow> real \<Rightarrow> real \<Rightarrow> IAPINavImIm" where
  "ex_im key la lo =
     \<lparr>im_key = key, im_lat = la, im_lon = lo, im_clat = None, im_clon = None, im_ca = 0,
      im_cca = None, im_calt = None, im_rotation = None, im_orientation = 1\<rparr>"

definition ex_data :: IAPINavIm where
  "ex_data =
     \<lparr>data_hs = [''t''], data_ss = [\<lparr>s_key = ''s'', s_keys = [''a'', ''b'']\<rparr>],
      data_ims = [ex_im ''a'' 500 500, ex_im ''b'' 5 500]\<rparr>"

definition ex_tiles :: "string \<rightharpoonup> bool" where
  "ex_tiles = [''t'' \<mapsto> True]"

text \<open>The tiles once the south neighbour of \<open>t\<close> is loaded too.\<close>

definition ex_tiles_south :: "string \<rightharpoonup> bool" where
  "ex_tiles_south = [''t'' \<mapsto> True, ''ts'' \<mapsto> True]"

text \<open>The graph after the ingestion of the tile, and a second tile with \<open>a\<close> moved.\<close>

definition ex_graph :: Graph where
  "ex_graph = fst (projr (addNodesFromAPI ex_env (Some ex_data) ex_tiles Graph_new))"

definition ex_again :: IAPINavIm where
  "ex_again = \<lparr>data_hs = [''t''], data_ss = [], data_ims = [ex_im ''a'' 700 700]\<rparr>"

definition ex_regraph :: Graph where
  "ex_regraph = fst (projr (addNodesFromAPI ex_env (Some ex_again) ex_tiles ex_graph))"

text \<open>The graph after the edges of \<open>a\<close>, the node object at reference 0, are cached.\<close>

definition ex_cached :: Graph where
  "ex_cached = fst (projr (cacheNode ex_env 0 ex_graph))"

section \<open>Properties of Spatial.wrap\<close>

lemma wrap_loop_inside:
  "\<not> num_gt ar v mx \<Longrightarrow> \<not> num_lt ar v mn \<Longrightarrow> wrap_loop ar v mn mx d = Some v"
  by (subst wrap_loop.simps) simp


lemma wrap_loop_stuck:
  assumes "wrap_loop ar v mn mx d = Some r"
  shows "\<not> (num_sub ar v d = v \<and> num_add ar v d = v \<and> (num_gt ar v mx \<or> num_lt ar v mn))"
  using assms
proof (induction rule: wrap_loop.raw_induct[rotated 1, consumes 1])
  case (1 f ar v mn mx d r)
  then show ?case by (auto split: if_splits)
qed

lemma wrap_loop_diverges:
  "num_sub ar v d = v \<Longrightarrow> num_add ar v d = v \<Longrightarrow> num_gt ar v mx \<or> num_lt ar v mn \<Longrightarrow>
   wrap_loop ar v mn mx d = None"
  using wrap_loop_stuck[of ar v mn mx d] by (cases "wrap_loop ar v mn mx d") auto




text \<open>
  Claim C9: \<open>wrap\<close> is to raise whenever the upper bound is not larger than the lower
  one. With equal bounds the check \<^verbatim>\<open>max < min\<close> lets the call through: for a value
  other than the bound the loop adds an interval of zero for ever, and for the bound
  itself the call returns it.
\<close>

theorem wrap_equal_bounds_no_error:
  "wrap exact 0 1 1 = None \<and> wrap exact 1 1 1 = Some (Inr 1)"
  by (simp add: wrap_def wrap_loop_diverges wrap_loop_inside exact_def)

section \<open>Properties of NewGraph.fetch\<close>

text \<open>
  Claim C4: \<open>fetch\<close> raises exactly when the key is being fetched or a node with the key
  is in the graph; a call that does not raise marks the key as being fetched, so that a
  second call, before the first completes, raises.
\<close>

theorem fetch_precondition:
  "((\<exists>e. fetch key g = Inl e) \<longleftrightarrow> fetching g key \<or> hasNode g key) \<and>
   (\<forall>g' ev. fetch key g = Inr (g', ev) \<longrightarrow> fetching g' key \<and> (\<exists>e. fetch key g' = Inl e))"
  by (auto simp: fetch_def fetching_def hasNode_def)

theorem fetch_precondition_witness:
  "\<not> fetching NewGraph_new ''k'' \<and> \<not> hasNode NewGraph_new ''k'' \<and>
   fetch ''k'' NewGraph_new = Inr (fst (projr (fetch ''k'' NewGraph_new)), []) \<and>
   fetching (fst (projr (fetch ''k'' NewGraph_new))) ''k'' \<and>
   (\<exists>e. fetch ''k'' (fst (projr (fetch ''k'' NewGraph_new))) = Inl e)"
  using fetch_precondition[of "''k''" NewGraph_new]
  by (simp add: fetch_def fetching_def hasNode_def NewGraph_new_def)

text \<open>
  Claim C5, as the code has it. When the request of \<open>fetch\<close> fails, no callback runs:
  the state is unchanged, the key is still marked as being fetched, a further \<open>fetch\<close> of
  the key raises, and no value is pushed on the change subject.
\<close>

theorem fetch_rejected_no_effect:
  assumes "fetch key g = Inr (g1, ev)"
  shows "fetch_settled key Rejected g1 = (g1, []) \<and> fetching g1 key \<and>
         (\<exists>e. fetch key g1 = Inl e)"
  using assms by (auto simp: fetch_def fetching_def fetch_settled_def split: if_splits)

theorem fetch_rejected_no_effect_witness:
  "fetch ''k'' NewGraph_new = Inr (fst (projr (fetch ''k'' NewGraph_new)), []) \<and>
   fetch_settled ''k'' Rejected (fst (projr (fetch ''k'' NewGraph_new))) =
     (fst (projr (fetch ''k'' NewGraph_new)), []) \<and>
   fetching (fst (projr (fetch ''k'' NewGraph_new))) ''k'' \<and>
   (\<exists>e. fetch ''k'' (fst (projr (fetch ''k'' NewGraph_new))) = Inl e)"
proof -
  have h: "fetch ''k'' NewGraph_new = Inr (fst (projr (fetch ''k'' NewGraph_new)), [])"
    by (simp add: fetch_def NewGraph_new_def)
  from fetch_rejected_no_effect[OF h] h show ?thesis by simp
qed

text \<open>
  Claim C5 as stated fails: after a fetch of \<open>k\<close> whose request is rejected, \<open>k\<close> is still
  marked as being fetched and nothing has been pushed.
\<close>

theorem fetch_rejected_keeps_fetching:
  "fetching (fst (fetch_settled ''k'' Rejected (fst (projr (fetch ''k'' NewGraph_new))))) ''k'' \<and>
   snd (fetch_settled ''k'' Rejected (fst (projr (fetch ''k'' NewGraph_new)))) = []"
  by (simp add: fetch_def fetching_def fetch_settled_def NewGraph_new_def)

section \<open>Properties of the coverage set\<close>

text \<open>
  Claim C7: the coverage set that \<open>computeHs\<close> returns holds the home tile \<open>h\<close>; it holds
  the north, west, south or east neighbour when the node is less than 20 from that
  boundary of the tile in the projected frame, and the neighbour across a corner when
  the node is less than 20 from both boundaries that meet there; it holds nothing but
  the tile and its neighbours. When the tile and its eight neighbours are nine different
  geohashes, each neighbour is in the set exactly under its condition. Here
  \<open>(px, py, pz)\<close> is the projected position of the node and \<open>(tx, ty, tz)\<close> that of the
  north east corner, both relative to the south west corner.
\<close>

theorem computeHs_coverage:
  assumes "geodeticToEnu env (lat latLon) (lon latLon) 0 (lat sw) (lon sw) 0 = (px, py, pz)"
    and "geodeticToEnu env (lat ne) (lon ne) 0 (lat sw) (lon sw) 0 = (tx, ty, tz)"
  shows "h \<in> set (computeHs env latLon sw ne h nb) \<and>
    (ty - py < 20 \<longrightarrow> nb Dir_n \<in> set (computeHs env latLon sw ne h nb)) \<and>
    (px < 20 \<longrightarrow> nb Dir_w \<in> set (computeHs env latLon sw ne h nb)) \<and>
    (py < 20 \<longrightarrow> nb Dir_s \<in> set (computeHs env latLon sw ne h nb)) \<and>
    (tx - px < 20 \<longrightarrow> nb Dir_e \<in> set (computeHs env latLon sw ne h nb)) \<and>
    (ty - py < 20 \<and> px < 20 \<longrightarrow> nb Dir_nw \<in> set (computeHs env latLon sw ne h nb)) \<and>
    (px < 20 \<and> py < 20 \<longrightarrow> nb Dir_sw \<in> set (computeHs env latLon sw ne h nb)) \<and>
    (py < 20 \<and> tx - px < 20 \<longrightarrow> nb Dir_se \<in> set (computeHs env latLon sw ne h nb)) \<and>
    (tx - px < 20 \<and> ty - py < 20 \<longrightarrow> nb Dir_ne \<in> set (computeHs env latLon sw ne h nb)) \<and>
    set (computeHs env latLon sw ne h nb) \<subseteq>
      {h, nb Dir_n, nb Dir_nw, nb Dir_w, nb Dir_sw, nb Dir_s, nb Dir_se, nb Dir_e, nb Dir_ne} \<and>
    (distinct [h, nb Dir_n, nb Dir_nw, nb Dir_w, nb Dir_sw, nb Dir_s, nb Dir_se, nb Dir_e,
               nb Dir_ne] \<longrightarrow>
      (nb Dir_n \<in> set (computeHs env latLon sw ne h nb) \<longleftrightarrow> ty - py < 20) \<and>
      (nb Dir_w \<in> set (computeHs env latLon sw ne h nb) \<longleftrightarrow> px < 20) \<and>
      (nb Dir_s \<in> set (computeHs env latLon sw ne h nb) \<longleftrightarrow> py < 20) \<and>
      (nb Dir_e \<in> set (computeHs env latLon sw ne h nb) \<longleftrightarrow> tx - px < 20) \<and>
      (nb Dir_nw \<in> set (computeHs env latLon sw ne h nb) \<longleftrightarrow> ty - py < 20 \<and> px < 20) \<and>
      (nb Dir_sw \<in> set (computeHs env latLon sw ne h nb) \<longleftrightarrow> px < 20 \<and> py < 20) \<and>
      (nb Dir_se \<in> set (computeHs env latLon sw ne h nb) \<longleftrightarrow> py < 20 \<and> tx - px < 20) \<and>
      (nb Dir_ne \<in> set (computeHs env latLon sw ne h nb) \<longleftrightarrow> tx - px < 20 \<and> ty - py < 20))"
  using assms
  by (cases "ty - py < 20"; cases "px < 20"; cases "py < 20"; cases "tx - px < 20";
      auto simp add: computeHs_def Let_def)

theorem computeHs_coverage_witness:
  "ex_neighbours ''t'' Dir_s \<in>
     set (computeHs ex_env \<lparr>lat = 5, lon = 500\<rparr> \<lparr>lat = 0, lon = 0\<rparr>
            \<lparr>lat = 1000, lon = 1000\<rparr> ''t'' (ex_neighbours ''t'')) \<and>
   ex_neighbours ''t'' Dir_n \<notin>
     set (computeHs ex_env \<lparr>lat = 5, lon = 500\<rparr> \<lparr>lat = 0, lon = 0\<rparr>
            \<lparr>lat = 1000, lon = 1000\<rparr> ''t'' (ex_neighbours ''t'')) \<and>
   ex_neighbours ''t'' Dir_se \<notin>
     set (computeHs ex_env \<lparr>lat = 5, lon = 500\<rparr> \<lparr>lat = 0, lon = 0\<rparr>
            \<lparr>lat = 1000, lon = 1000\<rparr> ''t'' (ex_neighbours ''t''))"
proof -
  have p: "geodeticToEnu ex_env (lat \<lparr>lat = 5, lon = 500\<rparr>) (lon \<lparr>lat = 5, lon = 500\<rparr>) 0
             (lat \<lparr>lat = 0, lon = 0\<rparr>) (lon \<lparr>lat = 0, lon = 0\<rparr>) 0 = (500, 5, 0)"
    by (simp add: ex_env_def)
  have t: "geodeticToEnu ex_env (lat \<lparr>lat = 1000, lon = 1000\<rparr>) (lon \<lparr>lat = 1000, lon = 1000\<rparr>) 0
             (lat \<lparr>lat = 0, lon = 0\<rparr>) (lon \<lparr>lat = 0, lon = 0\<rparr>) 0 = (1000, 1000, 0)"
    by (simp add: ex_env_def)
  have d: "distinct [''t'', ex_neighbours ''t'' Dir_n, ex_neighbours ''t'' Dir_nw,
                     ex_neighbours ''t'' Dir_w, ex_neighbours ''t'' Dir_sw,
                     ex_neighbours ''t'' Dir_s, ex_neighbours ''t'' Dir_se,
                     ex_neighbours ''t'' Dir_e, ex_neighbours ''t'' Dir_ne]"
    by (simp add: ex_neighbours_def)
  from computeHs_coverage[OF p t, of "''t''" "ex_neighbours ''t''"] d show ?thesis by simp
qed

section \<open>Properties of the ingestion of a tile\<close>

text \<open>
  Claim C10: with an undefined payload, \<open>addNodesFromAPI\<close> returns at once and leaves
  the whole graph as it was.
\<close>

theorem addNodesFromAPI_undefined: "addNodesFromAPI env None tiles g = Inr (g, [])"
  by (simp add: addNodesFromAPI_def)

subsection \<open>The steps of the ingestion\<close>

lemma fold_loaded:
  "fold (\<lambda>h wo. wo \<and> loaded tiles h) xs b = (b \<and> list_all (loaded tiles) xs)"
  by (induction xs arbitrary: b) auto

lemma map_of_fold_delete:
  "map_of (fold AList.delete ks al) k = (if k \<in> set ks then None else map_of al k)"
  by (induction ks arbitrary: al) (auto simp: AList.delete_conv')

lemma getNode_heap_upd [simp]:
  "getNode (g\<lparr>heap := hp, unWorthyNodes := uw\<rparr>) = getNode g"
  by (rule ext) (simp add: getNode_def)

lemma covered_makeWorthy [simp]: "covered tiles (makeWorthy node) = covered tiles node"
  by (simp add: covered_def makeWorthy_def)

lemma worthyLoop_frame:
  "worthyLoop tiles ks g wk = Inr (g2, wk2) \<Longrightarrow>
     graph_nodes g2 = graph_nodes g \<and> nodeIndex g2 = nodeIndex g \<and> next_ref g2 = next_ref g \<and>
     sequences g2 = sequences g \<and> sequenceHashes g2 = sequenceHashes g \<and>
     graph_edges g2 = graph_edges g"
proof (induction ks arbitrary: g wk)
  case Nil
  then show ?case by simp
next
  case (Cons key keys)
  show ?case
  proof (cases "map_of (unWorthyNodes g) key \<noteq> Some True")
    case True
    with Cons.prems have "worthyLoop tiles keys g (wk @ [key]) = Inr (g2, wk2)" by simp
    from Cons.IH[OF this] show ?thesis .
  next
    case False
    with Cons.prems obtain r where r: "getNode g key = Some r"
      by (auto split: option.splits)
    show ?thesis
    proof (cases "covered tiles (heap g r)")
      case True
      with False r Cons.prems have
        "worthyLoop tiles keys
           (g\<lparr>heap := (heap g)(r := makeWorthy (heap g r)),
              unWorthyNodes := AList.update key False (unWorthyNodes g)\<rparr>)
           (wk @ [key]) = Inr (g2, wk2)"
        by (simp add: fold_loaded covered_def)
      from Cons.IH[OF this] show ?thesis by simp
    next
      case c: False
      with False r Cons.prems have "worthyLoop tiles keys g wk = Inr (g2, wk2)"
        by (simp add: fold_loaded covered_def)
      from Cons.IH[OF this] show ?thesis .
    qed
  qed
qed

lemma worthyLoop_heap:
  "worthyLoop tiles ks g wk = Inr (g2, wk2) \<Longrightarrow>
     (heap g2 r)\<lparr>worthy := b\<rparr> = (heap g r)\<lparr>worthy := b\<rparr>"
proof (induction ks arbitrary: g wk)
  case Nil
  then show ?case by simp
next
  case (Cons key keys)
  show ?case
  proof (cases "map_of (unWorthyNodes g) key \<noteq> Some True")
    case True
    with Cons.prems have "worthyLoop tiles keys g (wk @ [key]) = Inr (g2, wk2)" by simp
    from Cons.IH[OF this] show ?thesis .
  next
    case False
    with Cons.prems obtain r0 where r: "getNode g key = Some r0"
      by (auto split: option.splits)
    show ?thesis
    proof (cases "covered tiles (heap g r0)")
      case True
      with False r Cons.prems have
        "worthyLoop tiles keys
           (g\<lparr>heap := (heap g)(r0 := makeWorthy (heap g r0)),
              unWorthyNodes := AList.update key False (unWorthyNodes g)\<rparr>)
           (wk @ [key]) = Inr (g2, wk2)"
        by (simp add: fold_loaded covered_def)
      from Cons.IH[OF this] show ?thesis by (simp add: makeWorthy_def)
    next
      case c: False
      with False r Cons.prems have "worthyLoop tiles keys g wk = Inr (g2, wk2)"
        by (simp add: fold_loaded covered_def)
      from Cons.IH[OF this] show ?thesis .
    qed
  qed
qed

lemma promoted_step:
  "promoted tiles (g\<lparr>heap := (heap g)(r := makeWorthy (heap g r)),
                    unWorthyNodes := AList.update key False (unWorthyNodes g)\<rparr>) k =
     (k \<noteq> key \<and> promoted tiles g k)"
  by (auto simp: promoted_def AList.update_conv' split: option.splits)

lemma worthyLoop_char:
  "worthyLoop tiles ks g wk = Inr (g2, wk2) \<Longrightarrow>
     (\<forall>r. worthy (heap g2 r) =
          (worthy (heap g r) \<or> (\<exists>k\<in>set ks. promoted tiles g k \<and> getNode g k = Some r))) \<and>
     (\<forall>k. map_of (unWorthyNodes g2) k =
          (if k \<in> set ks \<and> promoted tiles g k then Some False else map_of (unWorthyNodes g) k)) \<and>
     set wk2 = set wk \<union> {k \<in> set ks. map_of (unWorthyNodes g) k \<noteq> Some True \<or> promoted tiles g k} \<and>
     (\<forall>k\<in>set ks. map_of (unWorthyNodes g) k = Some True \<longrightarrow> getNode g k \<noteq> None)"
proof (induction ks arbitrary: g wk)
  case Nil
  then show ?case by simp
next
  case (Cons key keys)
  show ?case
  proof (cases "map_of (unWorthyNodes g) key \<noteq> Some True")
    case True
    then have np: "\<not> promoted tiles g key" by (simp add: promoted_def)
    from True Cons.prems have "worthyLoop tiles keys g (wk @ [key]) = Inr (g2, wk2)" by simp
    from Cons.IH[OF this] True np show ?thesis by auto
  next
    case False
    with Cons.prems obtain r0 where r: "getNode g key = Some r0"
      by (auto split: option.splits)
    show ?thesis
    proof (cases "covered tiles (heap g r0)")
      case True
      then have p: "promoted tiles g key" using False r by (simp add: promoted_def)
      let ?g = "g\<lparr>heap := (heap g)(r0 := makeWorthy (heap g r0)),
              unWorthyNodes := AList.update key False (unWorthyNodes g)\<rparr>"
      from True False r Cons.prems have "worthyLoop tiles keys ?g (wk @ [key]) = Inr (g2, wk2)"
        by (simp add: fold_loaded covered_def)
      from Cons.IH[OF this] have
        a: "\<And>r. worthy (heap g2 r) =
          (worthy (heap ?g r) \<or> (\<exists>k\<in>set keys. (k \<noteq> key \<and> promoted tiles g k) \<and> getNode g k = Some r))"
        and b: "\<And>k. map_of (unWorthyNodes g2) k =
          (if k \<in> set keys \<and> (k \<noteq> key \<and> promoted tiles g k) then Some False
           else map_of (unWorthyNodes ?g) k)"
        and c: "set wk2 = set (wk @ [key]) \<union>
                 {k \<in> set keys. map_of (unWorthyNodes ?g) k \<noteq> Some True \<or> (k \<noteq> key \<and> promoted tiles g k)}"
        and d: "\<forall>k\<in>set keys. map_of (unWorthyNodes ?g) k = Some True \<longrightarrow> getNode g k \<noteq> None"
        by (simp_all add: promoted_step)
      have a': "\<forall>r. worthy (heap g2 r) =
          (worthy (heap g r) \<or> (\<exists>k\<in>set (key # keys). promoted tiles g k \<and> getNode g k = Some r))"
      proof
        fix r
        have e: "(\<exists>k\<in>set (key # keys). promoted tiles g k \<and> getNode g k = Some r) =
                 (r = r0 \<or> (\<exists>k\<in>set keys. (k \<noteq> key \<and> promoted tiles g k) \<and> getNode g k = Some r))"
        proof
          assume "\<exists>k\<in>set (key # keys). promoted tiles g k \<and> getNode g k = Some r"
          then obtain k where k: "k \<in> set (key # keys)" "promoted tiles g k" "getNode g k = Some r"
            by blast
          show "r = r0 \<or> (\<exists>k\<in>set keys. (k \<noteq> key \<and> promoted tiles g k) \<and> getNode g k = Some r)"
          proof (cases "k = key")
            case True
            with k r show ?thesis by simp
          next
            case False
            with k show ?thesis by auto
          qed
        next
          assume "r = r0 \<or> (\<exists>k\<in>set keys. (k \<noteq> key \<and> promoted tiles g k) \<and> getNode g k = Some r)"
          then show "\<exists>k\<in>set (key # keys). promoted tiles g k \<and> getNode g k = Some r"
            using p r by auto
        qed
        have w: "worthy (heap ?g r) = (r = r0 \<or> worthy (heap g r))"
          by (simp add: makeWorthy_def)
        show "worthy (heap g2 r) =
          (worthy (heap g r) \<or> (\<exists>k\<in>set (key # keys). promoted tiles g k \<and> getNode g k = Some r))"
          unfolding e a[of r] w by blast
      qed
      have b': "\<forall>k. map_of (unWorthyNodes g2) k =
          (if k \<in> set (key # keys) \<and> promoted tiles g k then Some False
           else map_of (unWorthyNodes g) k)"
        using b p by (auto simp: AList.update_conv')
      have c': "set wk2 = set wk \<union>
          {k \<in> set (key # keys). map_of (unWorthyNodes g) k \<noteq> Some True \<or> promoted tiles g k}"
        using c p by (auto simp: AList.update_conv' split: if_splits)
      have d': "\<forall>k\<in>set (key # keys). map_of (unWorthyNodes g) k = Some True \<longrightarrow> getNode g k \<noteq> None"
        using d r by (auto simp: AList.update_conv' split: if_splits)
      from a' b' c' d' show ?thesis by blast
    next
      case c: False
      then have np: "\<not> promoted tiles g key" using r by (simp add: promoted_def)
      from c False r Cons.prems have "worthyLoop tiles keys g wk = Inr (g2, wk2)"
        by (simp add: fold_loaded covered_def)
      from Cons.IH[OF this] False np r show ?thesis by auto
    qed
  qed
qed

lemma makeNodesWorthy_frame:
  assumes "makeNodesWorthy tiles g = Inr g'"
  shows "graph_nodes g' = graph_nodes g \<and> nodeIndex g' = nodeIndex g \<and> next_ref g' = next_ref g \<and>
     sequences g' = sequences g \<and> sequenceHashes g' = sequenceHashes g \<and>
     graph_edges g' = graph_edges g \<and> (\<forall>r b. (heap g' r)\<lparr>worthy := b\<rparr> = (heap g r)\<lparr>worthy := b\<rparr>)"
proof -
  from assms obtain g1 wk where
    l: "worthyLoop tiles (map fst (unWorthyNodes g)) g [] = Inr (g1, wk)"
    and g': "g' = g1\<lparr>unWorthyNodes := fold AList.delete wk (unWorthyNodes g1)\<rparr>"
    by (auto simp: makeNodesWorthy_def split: sum.splits)
  from worthyLoop_frame[OF l] worthyLoop_heap[OF l] g' show ?thesis by simp
qed

lemma makeNodesWorthy_char:
  assumes "makeNodesWorthy tiles g = Inr g'"
    and "map_of (unWorthyNodes g) k = Some True"
  shows "\<exists>r. getNode g k = Some r \<and>
           (if covered tiles (heap g r)
            then worthy (heap g' r) \<and> map_of (unWorthyNodes g') k = None
            else map_of (unWorthyNodes g') k = Some True \<and> worthy (heap g' r) = worthy (heap g r))"
proof -
  from assms obtain g1 wk where
    l: "worthyLoop tiles (map fst (unWorthyNodes g)) g [] = Inr (g1, wk)"
    and g': "g' = g1\<lparr>unWorthyNodes := fold AList.delete wk (unWorthyNodes g1)\<rparr>"
    by (auto simp: makeNodesWorthy_def split: sum.splits)
  have kin: "k \<in> set (map fst (unWorthyNodes g))"
    using assms(2) by (metis domI dom_map_of_conv_image_fst set_map)
  from worthyLoop_char[OF l] have
    a: "\<And>r. worthy (heap g1 r) =
          (worthy (heap g r) \<or>
           (\<exists>k\<in>set (map fst (unWorthyNodes g)). promoted tiles g k \<and> getNode g k = Some r))"
    and b: "\<And>k. map_of (unWorthyNodes g1) k =
          (if k \<in> set (map fst (unWorthyNodes g)) \<and> promoted tiles g k then Some False
           else map_of (unWorthyNodes g) k)"
    and c: "set wk = {k \<in> set (map fst (unWorthyNodes g)).
                      map_of (unWorthyNodes g) k \<noteq> Some True \<or> promoted tiles g k}"
    and d: "\<forall>k\<in>set (map fst (unWorthyNodes g)).
              map_of (unWorthyNodes g) k = Some True \<longrightarrow> getNode g k \<noteq> None"
    by simp_all
  from d kin assms(2) obtain r where r: "getNode g k = Some r" by auto
  have heap': "heap g' = heap g1" and uw': "map_of (unWorthyNodes g') k =
      (if k \<in> set wk then None else map_of (unWorthyNodes g1) k)"
    using g' by (simp_all add: map_of_fold_delete)
  show ?thesis
  proof (cases "covered tiles (heap g r)")
    case True
    then have p: "promoted tiles g k" using r assms(2) by (simp add: promoted_def)
    then have "k \<in> set wk" using c kin by simp
    moreover have "worthy (heap g1 r)" using a[of r] p kin r by blast
    ultimately show ?thesis using r True heap' uw' by auto
  next
    case False
    then have np: "\<not> promoted tiles g k" using r by (simp add: promoted_def)
    then have "k \<notin> set wk" using c assms(2) by simp
    moreover have "map_of (unWorthyNodes g1) k = Some True" using b[of k] np assms(2) by simp
    moreover have "worthy (heap g1 r) = worthy (heap g r)"
      using a[of r] False by (auto simp: promoted_def)
    ultimately show ?thesis using r False heap' uw' by auto
  qed
qed

lemma makeNode_key:
  "makeNode env bounds h nb hsh im = Inr node \<Longrightarrow> node_key node = im_key im \<and> \<not> worthy node"
  by (auto simp: makeNode_def Let_def Node_new_def node_key_def split: sum.splits)

lemma makeNodes_char:
  "makeNodes env bounds h nb hsh ims g = Inr (g2, rs) \<Longrightarrow>
     graph_nodes g2 = graph_nodes g \<and> nodeIndex g2 = nodeIndex g \<and>
     sequences g2 = sequences g \<and> sequenceHashes g2 = sequenceHashes g \<and>
     graph_edges g2 = graph_edges g \<and>
     next_ref g2 = next_ref g + length ims \<and>
     (\<forall>r. r < next_ref g \<longrightarrow> heap g2 r = heap g r) \<and>
     (\<forall>r. next_ref g \<le> r \<and> r < next_ref g2 \<longrightarrow> \<not> worthy (heap g2 r)) \<and>
     (\<forall>r\<in>set rs. node_key (heap g2 r) \<in> im_key ` set ims) \<and>
     (\<forall>k. map_of (unWorthyNodes g2) k =
          (if k \<in> im_key ` set ims then Some True else map_of (unWorthyNodes g) k))"
proof (induction ims arbitrary: g g2 rs)
  case Nil
  then show ?case by auto
next
  case (Cons im ims)
  from Cons.prems obtain node where n: "makeNode env bounds h nb hsh im = Inr node"
    by (auto split: sum.splits)
  let ?g = "g\<lparr>heap := (heap g)(next_ref g := node), next_ref := Suc (next_ref g),
              unWorthyNodes := AList.update (im_key im) True (unWorthyNodes g)\<rparr>"
  from Cons.prems n obtain rs' where
    r: "makeNodes env bounds h nb hsh ims ?g = Inr (g2, rs')" and rs: "rs = next_ref g # rs'"
    by (auto simp: Let_def split: sum.splits)
  note ih = Cons.IH[OF r]
  from ih have fr: "graph_nodes g2 = graph_nodes g \<and> nodeIndex g2 = nodeIndex g \<and>
     sequences g2 = sequences g \<and> sequenceHashes g2 = sequenceHashes g \<and>
     graph_edges g2 = graph_edges g \<and> next_ref g2 = next_ref g + length (im # ims)"
    by simp
  from ih have hp: "\<And>r. r < Suc (next_ref g) \<Longrightarrow> heap g2 r = heap ?g r" by simp
  have old: "\<forall>r. r < next_ref g \<longrightarrow> heap g2 r = heap g r"
    using hp by simp
  have new0: "heap g2 (next_ref g) = node" using hp[of "next_ref g"] by simp
  from ih have nw: "\<And>r. Suc (next_ref g) \<le> r \<and> r < next_ref g2 \<Longrightarrow> \<not> worthy (heap g2 r)"
    by simp
  have new: "\<forall>r. next_ref g \<le> r \<and> r < next_ref g2 \<longrightarrow> \<not> worthy (heap g2 r)"
  proof (intro allI impI)
    fix r assume a: "next_ref g \<le> r \<and> r < next_ref g2"
    show "\<not> worthy (heap g2 r)"
    proof (cases "r = next_ref g")
      case True
      then show ?thesis using new0 makeNode_key[OF n] by simp
    next
      case False
      with a nw[of r] show ?thesis by simp
    qed
  qed
  from ih have ks': "\<forall>r\<in>set rs'. node_key (heap g2 r) \<in> im_key ` set ims" by simp
  have ks: "\<forall>r\<in>set rs. node_key (heap g2 r) \<in> im_key ` set (im # ims)"
    using ks' rs new0 makeNode_key[OF n] by auto
  from ih have "\<And>k. map_of (unWorthyNodes g2) k =
          (if k \<in> im_key ` set ims then Some True else map_of (unWorthyNodes ?g) k)" by simp
  then have uw: "\<forall>k. map_of (unWorthyNodes g2) k =
          (if k \<in> im_key ` set (im # ims) then Some True else map_of (unWorthyNodes g) k)"
    by (auto simp: AList.update_conv')
  from fr old new ks uw show ?case by blast
qed

lemma insertNode_frame:
  "heap (insertNode r g) = heap g \<and> next_ref (insertNode r g) = next_ref g \<and>
   unWorthyNodes (insertNode r g) = unWorthyNodes g \<and> sequences (insertNode r g) = sequences g \<and>
   sequenceHashes (insertNode r g) = sequenceHashes g \<and> graph_edges (insertNode r g) = graph_edges g"
  by (simp add: insertNode_def Let_def)

lemma insertNode_present:
  "getNode g k \<noteq> None \<Longrightarrow>
     graph_nodes (insertNode r g) k = graph_nodes g k \<and> getNode (insertNode r g) k \<noteq> None"
  by (auto simp: insertNode_def Let_def getNode_def)

lemma insertNode_noop: "getNode g (node_key (heap g r)) \<noteq> None \<Longrightarrow> insertNode r g = g"
  by (simp add: insertNode_def Let_def)

lemma insertNodes_frame:
  "heap (insertNodes rs g) = heap g \<and> next_ref (insertNodes rs g) = next_ref g \<and>
   unWorthyNodes (insertNodes rs g) = unWorthyNodes g \<and> sequences (insertNodes rs g) = sequences g \<and>
   sequenceHashes (insertNodes rs g) = sequenceHashes g \<and>
   graph_edges (insertNodes rs g) = graph_edges g"
  unfolding insertNodes_def
  by (induction rs arbitrary: g) (simp_all add: insertNode_frame)

lemma insertNodes_present:
  "getNode g k \<noteq> None \<Longrightarrow>
     graph_nodes (insertNodes rs g) k = graph_nodes g k \<and> getNode (insertNodes rs g) k \<noteq> None"
  unfolding insertNodes_def
proof (induction rs arbitrary: g)
  case Nil
  then show ?case by simp
next
  case (Cons a rs)
  from insertNode_present[OF Cons.prems, of a] Cons.IH[of "insertNode a g"]
  show ?case by simp
qed

lemma insertNodes_noop:
  "\<forall>r\<in>set rs. getNode g (node_key (heap g r)) \<noteq> None \<Longrightarrow> insertNodes rs g = g"
  unfolding insertNodes_def
  by (induction rs) (simp_all add: insertNode_noop)

lemma addSequences_frame:
  "addSequences ss g acc = (g1, hsh) \<Longrightarrow>
     graph_nodes g1 = graph_nodes g \<and> nodeIndex g1 = nodeIndex g \<and> heap g1 = heap g \<and>
     next_ref g1 = next_ref g \<and> unWorthyNodes g1 = unWorthyNodes g \<and>
     graph_edges g1 = graph_edges g"
proof (induction ss arbitrary: g acc)
  case Nil
  then show ?case by simp
next
  case (Cons s ss)
  show ?case
  proof (cases "sequences g (s_key s) \<noteq> None")
    case True
    with Cons.prems have "addSequences ss g (acc @ [sequenceHashes g (s_key s)]) = (g1, hsh)"
      by (simp add: Let_def)
    from Cons.IH[OF this] show ?thesis .
  next
    case False
    with Cons.prems obtain g0 acc0 where
      "addSequences ss g0 acc0 = (g1, hsh)"
      "graph_nodes g0 = graph_nodes g \<and> nodeIndex g0 = nodeIndex g \<and> heap g0 = heap g \<and>
       next_ref g0 = next_ref g \<and> unWorthyNodes g0 = unWorthyNodes g \<and>
       graph_edges g0 = graph_edges g"
      by (simp add: Let_def)
    with Cons.IH[of g0 acc0] show ?thesis by simp
  qed
qed

lemma addNodesFromAPI_steps:
  assumes "addNodesFromAPI env (Some d) tiles g = Inr (g', ev)"
  obtains h bounds nb g1 hsh g2 rs where
    "addSequences (data_ss d) g [] = (g1, hsh)"
    "makeNodes env bounds h nb hsh (data_ims d) g1 = Inr (g2, rs)"
    "makeNodesWorthy tiles (insertNodes rs g2) = Inr g'"
    "ev = []"
  using assms
  by (auto simp: addNodesFromAPI_def split: list.splits option.splits sum.splits prod.splits)

subsection \<open>The small tile, evaluated\<close>

lemmas ex_defs = addNodesFromAPI_def ex_env_def ex_data_def ex_tiles_def
  Graph_new_def ex_im_def makeNode_def computeHs_def Let_def insertNodes_def insertNode_def
  getNode_def makeNodesWorthy_def loaded_def Node_new_def node_key_def makeWorthy_def
  ex_neighbours_def Sequence_new_def defaultAlt_def ex_again_def

lemma ex_ingest:
  "\<exists>g'. addNodesFromAPI ex_env (Some ex_data) ex_tiles Graph_new = Inr (g', [])"
  by (simp add: ex_defs)

lemma ex_graph_eq:
  "addNodesFromAPI ex_env (Some ex_data) ex_tiles Graph_new = Inr (ex_graph, [])"
  using ex_ingest by (auto simp: ex_graph_def)

lemma ex_graph_facts:
  "getNode ex_graph ''a'' = Some 0 \<and> getNode ex_graph ''b'' = Some (Suc 0) \<and>
   worthy (heap ex_graph 0) \<and> \<not> worthy (heap ex_graph (Suc 0)) \<and>
   unWorthyNodes ex_graph = [(''b'', True)] \<and> next_ref ex_graph = Suc (Suc 0) \<and>
   hs (heap ex_graph 0) = [''t''] \<and> hs (heap ex_graph (Suc 0)) = [''t'', ''ts''] \<and>
   map item_node (nodeIndex ex_graph) = [0, Suc 0] \<and>
   lat (node_latLon (heap ex_graph 0)) = 500"
  by (simp add: ex_graph_def ex_defs)

lemma ex_reingest:
  "\<exists>g'. addNodesFromAPI ex_env (Some ex_again) ex_tiles ex_graph = Inr (g', [])"
  by (simp add: ex_graph_def ex_defs)

lemma ex_regraph_eq:
  "addNodesFromAPI ex_env (Some ex_again) ex_tiles ex_graph = Inr (ex_regraph, [])"
  using ex_reingest by (auto simp: ex_regraph_def)

subsection \<open>Promotion to worthy\<close>

text \<open>
  Claim C1, as the code has it. After a call of \<open>addNodesFromAPI\<close> with a defined
  payload that returns, every key that was tracked as unworthy when the promotion ran
  (it was tracked before the call, or it is the key of an image of the payload) has a
  node in the graph, and this node has been promoted (it is worthy and its key is no
  longer tracked) if and only if every tile of its coverage set is marked loaded in
  \<open>tiles\<close>. A node with an unloaded tile is not promoted: its key stays tracked as
  unworthy and its worthy flag is what it was before the call, which is false for a
  node object created by the call.
\<close>

theorem makeNodesWorthy_iff_covered:
  assumes "addNodesFromAPI env (Some data) tiles g = Inr (g', ev)"
    and "map_of (unWorthyNodes g) key = Some True \<or> key \<in> im_key ` set (data_ims data)"
  shows "\<exists>r. getNode g' key = Some r \<and>
           ((worthy (heap g' r) \<and> map_of (unWorthyNodes g') key = None) \<longleftrightarrow>
              covered tiles (heap g' r)) \<and>
           (\<not> covered tiles (heap g' r) \<longrightarrow>
              map_of (unWorthyNodes g') key = Some True \<and>
              (r < next_ref g \<longrightarrow> worthy (heap g' r) = worthy (heap g r)) \<and>
              (next_ref g \<le> r \<longrightarrow> r < next_ref g' \<longrightarrow> \<not> worthy (heap g' r)))"
proof -
  from assms(1) obtain h bounds nb g1 hsh g2 rs where
    s1: "addSequences (data_ss data) g [] = (g1, hsh)" and
    s2: "makeNodes env bounds h nb hsh (data_ims data) g1 = Inr (g2, rs)" and
    s3: "makeNodesWorthy tiles (insertNodes rs g2) = Inr g'"
    by (rule addNodesFromAPI_steps)
  let ?g3 = "insertNodes rs g2"
  note f1 = addSequences_frame[OF s1]
  note f2 = makeNodes_char[OF s2]
  note f3 = insertNodes_frame[of rs g2]
  note f4 = makeNodesWorthy_frame[OF s3]
  have tr: "map_of (unWorthyNodes ?g3) key = Some True"
    using assms(2) f1 f2 f3 by auto
  from makeNodesWorthy_char[OF s3 tr] obtain r where
    r: "getNode ?g3 key = Some r" and
    c: "if covered tiles (heap ?g3 r)
        then worthy (heap g' r) \<and> map_of (unWorthyNodes g') key = None
        else map_of (unWorthyNodes g') key = Some True \<and> worthy (heap g' r) = worthy (heap ?g3 r)"
    by blast
  have gn: "getNode g' key = Some r" using r f4 by (simp add: getNode_def)
  have "hs ((heap g' r)\<lparr>worthy := True\<rparr>) = hs ((heap ?g3 r)\<lparr>worthy := True\<rparr>)"
    using f4 by simp
  then have cov: "covered tiles (heap g' r) = covered tiles (heap ?g3 r)"
    by (simp add: covered_def)
  have nr: "next_ref g' = next_ref g2" "next_ref g1 = next_ref g" "heap ?g3 = heap g2"
    using f1 f3 f4 by simp_all
  have old: "r < next_ref g \<Longrightarrow> heap ?g3 r = heap g r"
    using f1 f2 nr by simp
  have new: "next_ref g \<le> r \<Longrightarrow> r < next_ref g' \<Longrightarrow> \<not> worthy (heap ?g3 r)"
    using f2 nr by simp
  show ?thesis
  proof (cases "covered tiles (heap ?g3 r)")
    case True
    with c gn cov show ?thesis by simp
  next
    case False
    with c gn cov old new show ?thesis by auto
  qed
qed

theorem makeNodesWorthy_iff_covered_witness:
  "addNodesFromAPI ex_env (Some ex_data) ex_tiles Graph_new = Inr (ex_graph, []) \<and>
   ''a'' \<in> im_key ` set (data_ims ex_data) \<and> ''b'' \<in> im_key ` set (data_ims ex_data) \<and>
   (\<exists>r. getNode ex_graph ''a'' = Some r \<and> covered ex_tiles (heap ex_graph r) \<and>
        worthy (heap ex_graph r) \<and> map_of (unWorthyNodes ex_graph) ''a'' = None) \<and>
   (\<exists>r. getNode ex_graph ''b'' = Some r \<and> \<not> covered ex_tiles (heap ex_graph r) \<and>
        \<not> worthy (heap ex_graph r) \<and> map_of (unWorthyNodes ex_graph) ''b'' = Some True)"
proof -
  have ka: "map_of (unWorthyNodes Graph_new) ''a'' = Some True \<or>
            ''a'' \<in> im_key ` set (data_ims ex_data)"
    by (simp add: ex_data_def ex_im_def)
  have kb: "map_of (unWorthyNodes Graph_new) ''b'' = Some True \<or>
            ''b'' \<in> im_key ` set (data_ims ex_data)"
    by (simp add: ex_data_def ex_im_def)
  from makeNodesWorthy_iff_covered[OF ex_graph_eq ka]
    makeNodesWorthy_iff_covered[OF ex_graph_eq kb] ex_graph_eq
  show ?thesis
    by (simp add: ex_graph_facts covered_def loaded_def ex_tiles_def ex_data_def ex_im_def)
qed

text \<open>
  Claim C1 as stated fails for a call with an undefined payload, which returns before
  the promotion: in the graph of the small tile the node \<open>b\<close> is tracked as unworthy, and
  a call with an undefined payload and with every tile of the coverage set of \<open>b\<close>
  loaded leaves \<open>b\<close> tracked and not worthy.
\<close>

theorem undefined_payload_promotes_nothing:
  "map_of (unWorthyNodes ex_graph) ''b'' = Some True \<and>
   getNode ex_graph ''b'' = Some (Suc 0) \<and>
   covered ex_tiles_south (heap ex_graph (Suc 0)) \<and>
   addNodesFromAPI ex_env None ex_tiles_south ex_graph = Inr (ex_graph, []) \<and>
   \<not> worthy (heap ex_graph (Suc 0))"
  by (simp add: ex_graph_facts covered_def loaded_def ex_tiles_south_def addNodesFromAPI_def)

subsection \<open>Ingesting a key again\<close>

text \<open>
  Claim C2: a call of \<open>addNodesFromAPI\<close> leaves the node label of every key that has a
  node in the graph as it was, that is, the key still refers to the node object
  inserted first. When every image of the payload has a key that is present, the nodes
  of the graph, hence their number, and the spatial index are unchanged. The node
  objects that existed before the call keep all their fields, the worthy flag apart,
  which the promotion that ends the call may set.
\<close>

theorem reingest_present_key:
  assumes "addNodesFromAPI env (Some data) tiles g = Inr (g', ev)"
  shows "(\<forall>key. getNode g key \<noteq> None \<longrightarrow> graph_nodes g' key = graph_nodes g key) \<and>
         ((\<forall>im\<in>set (data_ims data). getNode g (im_key im) \<noteq> None) \<longrightarrow>
            graph_nodes g' = graph_nodes g \<and> nodeIndex g' = nodeIndex g) \<and>
         (\<forall>r<next_ref g. heap g' r = (heap g r)\<lparr>worthy := worthy (heap g' r)\<rparr>)"
proof -
  from assms(1) obtain h bounds nb g1 hsh g2 rs where
    s1: "addSequences (data_ss data) g [] = (g1, hsh)" and
    s2: "makeNodes env bounds h nb hsh (data_ims data) g1 = Inr (g2, rs)" and
    s3: "makeNodesWorthy tiles (insertNodes rs g2) = Inr g'"
    by (rule addNodesFromAPI_steps)
  let ?g3 = "insertNodes rs g2"
  note f1 = addSequences_frame[OF s1]
  note f2 = makeNodes_char[OF s2]
  note f3 = insertNodes_frame[of rs g2]
  note f4 = makeNodesWorthy_frame[OF s3]
  have gn2: "getNode g2 = getNode g" using f1 f2 by (simp add: getNode_def fun_eq_iff)
  have a: "\<forall>key. getNode g key \<noteq> None \<longrightarrow> graph_nodes g' key = graph_nodes g key"
  proof (intro allI impI)
    fix key assume "getNode g key \<noteq> None"
    then have "getNode g2 key \<noteq> None" using gn2 by simp
    from insertNodes_present[OF this, of rs] show "graph_nodes g' key = graph_nodes g key"
      using f1 f2 f4 by simp
  qed
  have b: "(\<forall>im\<in>set (data_ims data). getNode g (im_key im) \<noteq> None) \<longrightarrow>
            graph_nodes g' = graph_nodes g \<and> nodeIndex g' = nodeIndex g"
  proof
    assume p: "\<forall>im\<in>set (data_ims data). getNode g (im_key im) \<noteq> None"
    have "\<forall>r\<in>set rs. getNode g2 (node_key (heap g2 r)) \<noteq> None"
      using f2 p gn2 by auto
    then have "?g3 = g2" by (rule insertNodes_noop)
    then show "graph_nodes g' = graph_nodes g \<and> nodeIndex g' = nodeIndex g"
      using f1 f2 f4 by simp
  qed
  have c: "\<forall>r<next_ref g. heap g' r = (heap g r)\<lparr>worthy := worthy (heap g' r)\<rparr>"
  proof (intro allI impI)
    fix r assume "r < next_ref g"
    then have "heap ?g3 r = heap g r" using f1 f2 f3 by simp
    moreover have "(heap g' r)\<lparr>worthy := worthy (heap g' r)\<rparr> =
                   (heap ?g3 r)\<lparr>worthy := worthy (heap g' r)\<rparr>"
      using f4 by blast
    ultimately show "heap g' r = (heap g r)\<lparr>worthy := worthy (heap g' r)\<rparr>" by simp
  qed
  from a b c show ?thesis by blast
qed

theorem reingest_present_key_witness:
  "addNodesFromAPI ex_env (Some ex_again) ex_tiles ex_graph = Inr (ex_regraph, []) \<and>
   map im_key (data_ims ex_again) = [''a''] \<and> getNode ex_graph ''a'' = Some 0 \<and>
   getNode ex_regraph ''a'' = Some 0 \<and>
   graph_nodes ex_regraph = graph_nodes ex_graph \<and> nodeIndex ex_regraph = nodeIndex ex_graph \<and>
   lat (node_latLon (heap ex_regraph 0)) = 500"
proof -
  have p: "\<forall>im\<in>set (data_ims ex_again). getNode ex_graph (im_key im) \<noteq> None"
    by (simp add: ex_again_def ex_im_def ex_graph_facts)
  have n: "(0::nat) < next_ref ex_graph" by (simp add: ex_graph_facts)
  from reingest_present_key[OF ex_regraph_eq] p n
  have "graph_nodes ex_regraph = graph_nodes ex_graph \<and> nodeIndex ex_regraph = nodeIndex ex_graph"
    and h: "heap ex_regraph 0 = (heap ex_graph 0)\<lparr>worthy := worthy (heap ex_regraph 0)\<rparr>"
    by blast+
  moreover have "lat (node_latLon (heap ex_regraph 0)) = 500"
    by (subst h) (simp add: ex_graph_facts)
  ultimately show ?thesis
    using ex_regraph_eq ex_graph_facts by (simp add: getNode_def ex_again_def ex_im_def)
qed

subsection \<open>Change notifications\<close>

text \<open>
  Claim C6, as the code has it. Class \<^verbatim>\<open>Graph\<close> has no change subject: a call of
  \<open>addNodesFromAPI\<close> pushes no change notification, whether or not it adds or promotes a
  node.
\<close>

theorem addNodesFromAPI_pushes_nothing:
  "addNodesFromAPI env data tiles g = Inr (g', ev) \<Longrightarrow> ev = []"
  by (auto simp: addNodesFromAPI_def split: list.splits option.splits sum.splits prod.splits)

theorem addNodesFromAPI_pushes_nothing_witness:
  "addNodesFromAPI ex_env (Some ex_data) ex_tiles Graph_new =
     Inr (ex_graph, snd (projr (addNodesFromAPI ex_env (Some ex_data) ex_tiles Graph_new))) \<and>
   snd (projr (addNodesFromAPI ex_env (Some ex_data) ex_tiles Graph_new)) = []"
proof -
  have h: "addNodesFromAPI ex_env (Some ex_data) ex_tiles Graph_new =
     Inr (ex_graph, snd (projr (addNodesFromAPI ex_env (Some ex_data) ex_tiles Graph_new)))"
    using ex_graph_eq by simp
  from addNodesFromAPI_pushes_nothing[OF h] h show ?thesis by simp
qed

text \<open>
  Claim C6 as stated fails: the ingestion of the small tile into the empty graph adds
  the node \<open>a\<close> and promotes it, and pushes no notification.
\<close>

theorem ingestion_adds_without_notification:
  "getNode Graph_new ''a'' = None \<and> getNode ex_graph ''a'' = Some 0 \<and>
   worthy (heap ex_graph 0) \<and>
   addNodesFromAPI ex_env (Some ex_data) ex_tiles Graph_new = Inr (ex_graph, [])"
  using ex_graph_eq ex_graph_facts by (simp add: Graph_new_def getNode_def)

section \<open>Properties of the edges of a node\<close>

lemma filter_update_in:
  "P k \<Longrightarrow> filter (\<lambda>ed. P (fst ed)) (AList.update k v al) =
            AList.update k v (filter (\<lambda>ed. P (fst ed)) al)"
  by (induction al) auto

lemma filter_update_out:
  "\<not> P k \<Longrightarrow> filter (\<lambda>ed. P (fst ed)) (AList.update k v al) = filter (\<lambda>ed. P (fst ed)) al"
  by (induction al) auto

lemma set_update_subset: "set (AList.update k v al) \<subseteq> insert (k, v) (set al)"
  by (induction al) auto

lemma filter_delete:
  "filter Q (AList.delete k al) = filter (\<lambda>ed. fst ed \<noteq> k \<and> Q ed) al"
  by (induction al) auto

lemma fold_removeEdge:
  "fold (\<lambda>ed. removeEdge (fst ed)) xs g =
     g\<lparr>graph_edges := filter (\<lambda>ed. fst ed \<notin> fst ` set xs) (graph_edges g)\<rparr>"
proof (induction xs arbitrary: g)
  case Nil
  then show ?case by simp
next
  case (Cons x xs)
  show ?case by (simp add: Cons.IH) (simp add: removeEdge_def filter_delete)
qed

lemma remove_outEdges:
  "filter (\<lambda>ed. fst ed \<notin> fst ` set (filter (\<lambda>ed. fst (fst ed) = v) es)) es =
   filter (\<lambda>ed. fst (fst ed) \<noteq> v) es"
  by (rule filter_cong) force+

lemma fold_setEdge:
  "fold (\<lambda>edge. setEdge (node_key node) (edge_to edge) (edge_data edge) (edgeName node edge)) es g =
     g\<lparr>graph_nodes := ensureNodes (node_key node) es (graph_nodes g),
       graph_edges := updateEdges node es (graph_edges g)\<rparr>"
  by (induction es arbitrary: g) (simp_all add: setEdge_def ensureNodes_def updateEdges_def)

lemma ensureNode_keep: "m k \<noteq> None \<Longrightarrow> ensureNode v m k \<noteq> None"
  by (simp add: ensureNode_def)

lemma ensureNodes_keep: "m k \<noteq> None \<Longrightarrow> ensureNodes v es m k \<noteq> None"
  unfolding ensureNodes_def
proof (induction es arbitrary: m)
  case Nil
  then show ?case by simp
next
  case (Cons e es)
  have "ensureNode (edge_to e) (ensureNode v m) k \<noteq> None"
    using Cons.prems by (intro ensureNode_keep)
  from Cons.IH[of "ensureNode (edge_to e) (ensureNode v m)"] this show ?case by simp
qed

lemma ensureNode_has: "ensureNode v m v \<noteq> None"
  by (simp add: ensureNode_def)

lemma ensureNodes_has:
  "edge \<in> set es \<Longrightarrow> ensureNodes v es m v \<noteq> None \<and> ensureNodes v es m (edge_to edge) \<noteq> None"
  unfolding ensureNodes_def
proof (induction es arbitrary: m)
  case Nil
  then show ?case by simp
next
  case (Cons e es)
  have h: "ensureNode (edge_to e) (ensureNode v m) v \<noteq> None"
          "ensureNode (edge_to e) (ensureNode v m) (edge_to e) \<noteq> None"
    by (simp_all add: ensureNode_has ensureNode_keep)
  show ?case
  proof (cases "edge = e")
    case True
    with h ensureNodes_keep[unfolded ensureNodes_def] show ?thesis by simp
  next
    case False
    with Cons show ?thesis by simp
  qed
qed

lemma ensureNodes_id:
  "m v \<noteq> None \<Longrightarrow> \<forall>edge\<in>set es. m (edge_to edge) \<noteq> None \<Longrightarrow> ensureNodes v es m = m"
  unfolding ensureNodes_def
proof (induction es)
  case Nil
  then show ?case by simp
next
  case (Cons e es)
  have 1: "ensureNode v m = m" using Cons.prems(1) by (auto simp: ensureNode_def)
  have 2: "ensureNode (edge_to e) m = m" using Cons.prems(2) by (auto simp: ensureNode_def)
  from Cons show ?case by (simp add: 1 2)
qed

lemma ensureNodes_idem:
  "m v \<noteq> None \<Longrightarrow> ensureNodes v es (ensureNodes v es m) = ensureNodes v es m"
  by (rule ensureNodes_id) (auto simp: ensureNodes_keep ensureNodes_has)

lemma updateEdges_src:
  "filter (\<lambda>ed. fst (fst ed) \<noteq> node_key node) (updateEdges node es al) =
   filter (\<lambda>ed. fst (fst ed) \<noteq> node_key node) al"
  unfolding updateEdges_def
proof (induction es arbitrary: al)
  case Nil
  then show ?case by simp
next
  case (Cons e es)
  show ?case
    using filter_update_out[of "\<lambda>k. fst k \<noteq> node_key node"
        "(node_key node, edge_to e, edgeName node e)" "edge_data e" al]
    by (simp add: Cons.IH)
qed

lemma updateEdges_set:
  "set (updateEdges node es al) \<subseteq>
     set al \<union> (\<lambda>e. ((node_key node, edge_to e, edgeName node e), edge_data e)) ` set es"
  unfolding updateEdges_def
proof (induction es arbitrary: al)
  case Nil
  then show ?case by simp
next
  case (Cons e es)
  from Cons.IH[of "AList.update (node_key node, edge_to e, edgeName node e) (edge_data e) al"]
    set_update_subset[of "(node_key node, edge_to e, edgeName node e)" "edge_data e" al]
  show ?case by auto
qed

lemma addEdgesToNode_eq:
  assumes "graph_nodes g (node_key (heap g r)) \<noteq> None"
  shows "addEdgesToNode r es g =
     Inr (g\<lparr>graph_nodes := ensureNodes (node_key (heap g r)) es (graph_nodes g),
            graph_edges := updateEdges (heap g r) es
               (filter (\<lambda>ed. fst (fst ed) \<noteq> node_key (heap g r)) (graph_edges g))\<rparr>)"
  using assms
  by (simp add: addEdgesToNode_def Let_def outEdges_def fold_removeEdge fold_setEdge
      remove_outEdges del: set_filter)

lemma addEdgesToNode_fails:
  "graph_nodes g (node_key (heap g r)) = None \<Longrightarrow> addEdgesToNode r es g = Inl TypeError"
  by (simp add: addEdgesToNode_def Let_def outEdges_def)

lemma strip_key [simp]: "node_key (strip node) = node_key node"
  by (simp add: strip_def node_key_def)

lemma collectEdges_strip:
  assumes "ignores_cached_edges env" "strip node' = strip node" "map strip nodes' = map strip nodes"
  shows "collectEdges env node' nodes' = collectEdges env node nodes"
proof -
  have a: "\<And>n. computeSequenceEdges env n = computeSequenceEdges env (strip n)"
    and b: "\<And>n ns ks. getPotentialEdges env n ns ks = getPotentialEdges env (strip n) (map strip ns) ks"
    and c: "\<And>n pes p q. computeStepEdges env n pes p q = computeStepEdges env (strip n) pes p q"
    and d: "\<And>n pes. computeTurnEdges env n pes = computeTurnEdges env (strip n) pes"
    and e: "\<And>n pes. computePanoEdges env n pes = computePanoEdges env (strip n) pes"
    and f: "\<And>n pes. computePerspectiveToPanoEdges env n pes =
                      computePerspectiveToPanoEdges env (strip n) pes"
    and g: "\<And>n pes. computeSimilarEdges env n pes = computeSimilarEdges env (strip n) pes"
    and h: "\<And>n. findPrevKeyInSequence env n = findPrevKeyInSequence env (strip n)"
    and i: "\<And>n. findNextKeyInSequence env n = findNextKeyInSequence env (strip n)"
    using assms(1) unfolding ignores_cached_edges_def by blast+
  show ?thesis
    unfolding collectEdges_def Let_def
    by (simp add: a[of node'] a[of node] b[of node'] b[of node] c[of node'] c[of node]
        d[of node'] d[of node] e[of node'] e[of node] f[of node'] f[of node]
        g[of node'] g[of node] h[of node'] h[of node] i[of node'] i[of node] assms(2,3))
qed

lemma updateEdges_key:
  "node_key node' = node_key node \<Longrightarrow> updateEdges node' es al = updateEdges node es al"
  by (simp add: updateEdges_def edgeName_def)

lemma getEdges_key:
  "node_key node' = node_key node \<Longrightarrow> graph_nodes g' = graph_nodes g \<Longrightarrow>
   graph_edges g' = graph_edges g \<Longrightarrow> getEdges g' node' = getEdges g node"
  by (simp add: getEdges_def outEdges_def)

lemma candidates_strip:
  "nodeIndex g' = nodeIndex g \<Longrightarrow> node_latLon node' = node_latLon node \<Longrightarrow>
   (\<And>x. strip (heap g' x) = strip (heap g x)) \<Longrightarrow>
   map strip (candidates g' node') = map strip (candidates g node)"
  by (simp add: candidates_def Let_def)

lemma cacheNode_worthy:
  assumes "worthy (heap g r)" and "graph_nodes g (node_key (heap g r)) \<noteq> None"
  shows "cacheNode env r g =
     Inr ((g\<lparr>graph_nodes := ensureNodes (node_key (heap g r))
                  (collectEdges env (heap g r) (candidates g (heap g r))) (graph_nodes g),
             graph_edges := updateEdges (heap g r)
                  (collectEdges env (heap g r) (candidates g (heap g r)))
                  (filter (\<lambda>ed. fst (fst ed) \<noteq> node_key (heap g r)) (graph_edges g))\<rparr>)
           \<lparr>heap := (heap g)(r := cacheEdges
               (getEdges (g\<lparr>graph_nodes := ensureNodes (node_key (heap g r))
                              (collectEdges env (heap g r) (candidates g (heap g r))) (graph_nodes g),
                            graph_edges := updateEdges (heap g r)
                              (collectEdges env (heap g r) (candidates g (heap g r)))
                              (filter (\<lambda>ed. fst (fst ed) \<noteq> node_key (heap g r)) (graph_edges g))\<rparr>)
                  (heap g r))
               (heap g r))\<rparr>, [])"
  using assms
  by (simp add: cacheNode_def computeEdges_def Let_def addEdgesToNode_eq)

lemma cacheNode_worthy_fails:
  assumes "worthy (heap g r)" and "graph_nodes g (node_key (heap g r)) = None"
  shows "cacheNode env r g = Inl TypeError"
  using assms
  by (simp add: cacheNode_def computeEdges_def Let_def addEdgesToNode_fails)

lemma ex_ignores: "ignores_cached_edges ex_env"
  by (simp add: ignores_cached_edges_def ex_env_def)

lemma ex_cached_eq: "cacheNode ex_env 0 ex_graph = Inr (ex_cached, [])"
proof -
  have "worthy (heap ex_graph 0)" by (simp add: ex_graph_facts)
  moreover have "node_key (heap ex_graph 0) = ''a''"
    by (simp add: ex_graph_def ex_defs)
  moreover have "graph_nodes ex_graph ''a'' \<noteq> None"
    using ex_graph_facts by (auto simp: getNode_def split: option.splits)
  ultimately show ?thesis
    unfolding ex_cached_def by (subst (1 2) cacheNode_worthy) simp_all
qed

lemma ex_cached_edges:
  "edges (heap ex_cached 0) =
     Some [\<lparr>edge_data = \<lparr>direction = 0, worldMotionAzimuth = 0\<rparr>, edge_from = ''a'',
            edge_to = ''b''\<rparr>] \<and>
   graph_nodes ex_cached ''b'' = Some (Some (Suc 0)) \<and>
   map fst (graph_edges ex_cached) = [(''a'', ''b'', ''ab0'')]"
proof -
  have w: "worthy (heap ex_graph 0)" by (simp add: ex_graph_facts)
  have k: "node_key (heap ex_graph 0) = ''a''"
    by (simp add: ex_graph_def ex_defs)
  have p: "graph_nodes ex_graph (node_key (heap ex_graph 0)) \<noteq> None"
    using ex_graph_facts by (auto simp: k getNode_def split: option.splits)
  have e: "graph_edges ex_graph = []" by (simp add: ex_graph_def ex_defs)
  have b: "graph_nodes ex_graph ''b'' = Some (Some (Suc 0))"
    using ex_graph_facts by (auto simp: getNode_def split: option.splits)
  have a: "graph_nodes ex_graph ''a'' = Some (Some 0)"
    using ex_graph_facts by (auto simp: getNode_def split: option.splits)
  have c: "collectEdges ex_env (heap ex_graph 0) nodes =
     [\<lparr>edge_data = \<lparr>direction = 0, worldMotionAzimuth = 0\<rparr>, edge_from = ''a'', edge_to = ''b''\<rparr>]"
    for nodes
    by (simp add: collectEdges_def ex_env_def k)
  show ?thesis
    unfolding ex_cached_def cacheNode_worthy[OF w p]
    by (simp add: c k e a b ensureNodes_def ensureNode_def updateEdges_def edgeName_def
        getEdges_def outEdges_def cacheEdges_def)
qed

text \<open>
  Claim C3: when \<open>cacheNode\<close> has run on a worthy node, a second run, with nothing done
  to the graph in between, returns the same graph: the node has the same cached edges
  and the graph the same edges. The cached edges are the outgoing edges of the node in
  the graph, and each of them is one of the edges computed for the node, so that the
  run replaces the edges the node had before. The edge calculator is a parameter, taken
  not to read the edges cached on the nodes it is given.
\<close>

theorem cacheNode_twice:
  assumes ic: "ignores_cached_edges env" and w: "worthy (heap g r)"
    and c1: "cacheNode env r g = Inr (g1, ev)"
  shows "cacheNode env r g1 = Inr (g1, []) \<and>
         edges (heap g1 r) = Some (getEdges g1 (heap g1 r)) \<and>
         set (getEdges g1 (heap g1 r)) \<subseteq>
           (\<lambda>e. \<lparr>edge_data = edge_data e, edge_from = node_key (heap g r), edge_to = edge_to e\<rparr>) `
             set (collectEdges env (heap g r) (candidates g (heap g r)))"
proof -
  define node where "node = heap g r"
  define key where "key = node_key node"
  define L where "L = collectEdges env node (candidates g node)"
  define base where "base = filter (\<lambda>ed. fst (fst ed) \<noteq> key) (graph_edges g)"
  define N where "N = ensureNodes key L (graph_nodes g)"
  define E where "E = updateEdges node L base"
  define gA where "gA = g\<lparr>graph_nodes := N, graph_edges := E\<rparr>"
  define E1 where "E1 = getEdges gA node"
  have present: "graph_nodes g key \<noteq> None"
  proof
    assume "graph_nodes g key = None"
    then have "cacheNode env r g = Inl TypeError"
      using w by (intro cacheNode_worthy_fails) (simp_all add: key_def node_def)
    with c1 show False by simp
  qed
  have g1: "g1 = gA\<lparr>heap := (heap g)(r := cacheEdges E1 node)\<rparr>" and ev: "ev = []"
    using c1 cacheNode_worthy[of g r env] w present
    by (simp_all add: key_def node_def L_def base_def N_def E_def gA_def E1_def)
  have h1: "heap g1 r = cacheEdges E1 node" "graph_nodes g1 = N" "graph_edges g1 = E"
    "nodeIndex g1 = nodeIndex g"
    by (simp_all add: g1 gA_def)
  have k1: "node_key (heap g1 r) = key" "worthy (heap g1 r)" "node_latLon (heap g1 r) = node_latLon node"
    using w by (simp_all add: h1 cacheEdges_def node_key_def key_def node_def)
  have e1: "getEdges g1 (heap g1 r) = E1"
    unfolding E1_def
    by (rule getEdges_key) (simp_all add: h1 gA_def cacheEdges_def node_key_def)
  have cached: "edges (heap g1 r) = Some (getEdges g1 (heap g1 r))"
    by (simp add: e1) (simp add: h1 cacheEdges_def)
  have st: "\<And>x. strip (heap g1 x) = strip (heap g x)"
    by (simp add: g1 gA_def strip_def cacheEdges_def node_def)
  have L1: "collectEdges env (heap g1 r) (candidates g1 (heap g1 r)) = L"
    unfolding L_def
  proof (rule collectEdges_strip[OF ic])
    show "strip (heap g1 r) = strip node" using st[of r] by (simp add: node_def)
    show "map strip (candidates g1 (heap g1 r)) = map strip (candidates g node)"
      by (rule candidates_strip) (simp_all add: h1(4) k1(3) st)
  qed
  have N1: "ensureNodes key L N = N"
    unfolding N_def using present by (rule ensureNodes_idem)
  have "filter (\<lambda>ed. fst (fst ed) \<noteq> key) E = filter (\<lambda>ed. fst (fst ed) \<noteq> key) base"
    unfolding E_def key_def by (rule updateEdges_src)
  then have b1: "filter (\<lambda>ed. fst (fst ed) \<noteq> key) E = base"
    by (simp add: base_def)
  have u1: "updateEdges (heap g1 r) L base = E"
    unfolding E_def by (rule updateEdges_key) (simp add: k1 key_def)
  have p1: "graph_nodes g1 (node_key (heap g1 r)) \<noteq> None"
    unfolding k1(1) h1(2) N_def using present by (rule ensureNodes_keep)
  have same: "g1\<lparr>graph_nodes := N, graph_edges := E\<rparr> = g1"
    by (simp add: g1 gA_def)
  have again: "cacheEdges E1 (heap g1 r) = heap g1 r"
    by (simp add: h1 cacheEdges_def)
  have c2: "cacheNode env r g1 = Inr (g1, [])"
    apply (subst cacheNode_worthy[OF k1(2) p1])
    apply (simp only: L1 k1(1) h1(2) h1(3) N1 b1 u1 same e1 again)
    apply simp
    done
  have sub: "set E1 \<subseteq>
      (\<lambda>e. \<lparr>edge_data = edge_data e, edge_from = key, edge_to = edge_to e\<rparr>) ` set L"
  proof
    fix x assume "x \<in> set E1"
    then obtain ed where ed: "ed \<in> set E" "fst (fst ed) = key"
      and x: "x = \<lparr>edge_data = snd ed, edge_from = fst (fst ed), edge_to = fst (snd (fst ed))\<rparr>"
      by (auto simp: E1_def getEdges_def outEdges_def gA_def key_def split: if_splits)
    from ed(1) updateEdges_set[of node L base]
    have "ed \<in> set base \<or>
          ed \<in> (\<lambda>e. ((node_key node, edge_to e, edgeName node e), edge_data e)) ` set L"
      by (auto simp: E_def)
    moreover have "ed \<notin> set base" using ed(2) by (simp add: base_def)
    ultimately obtain e where "e \<in> set L"
      "ed = ((node_key node, edge_to e, edgeName node e), edge_data e)" by blast
    then show "x \<in> (\<lambda>e. \<lparr>edge_data = edge_data e, edge_from = key, edge_to = edge_to e\<rparr>) ` set L"
      using x by (auto simp: key_def)
  qed
  from c2 cached sub show ?thesis
    by (simp add: e1) (simp add: key_def node_def L_def)
qed

theorem cacheNode_twice_witness:
  "ignores_cached_edges ex_env \<and> worthy (heap ex_graph 0) \<and>
   cacheNode ex_env 0 ex_graph = Inr (ex_cached, []) \<and>
   cacheNode ex_env 0 ex_cached = Inr (ex_cached, []) \<and>
   edges (heap ex_cached 0) = Some (getEdges ex_cached (heap ex_cached 0)) \<and>
   getEdges ex_cached (heap ex_cached 0) =
     [\<lparr>edge_data = \<lparr>direction = 0, worldMotionAzimuth = 0\<rparr>, edge_from = ''a'',
       edge_to = ''b''\<rparr>]"
proof -
  have w: "worthy (heap ex_graph 0)" by (simp add: ex_graph_facts)
  from cacheNode_twice[OF ex_ignores w ex_cached_eq] ex_ignores w ex_cached_eq ex_cached_edges
  show ?thesis by simp
qed

end
